theory Spec2Isabelle
  imports Complex_Main "HOL-Library.Monad_Syntax"
begin

section \<open>Tensors\<close>

text \<open>
  The program computes on NumPy arrays and TensorFlow tensors.  A tensor is modelled the
  way both libraries store it: a shape and a row-major buffer of scalars.  Scalars are
  taken from \<^typ>\<open>real\<close>: rounding of the 32/64-bit floats is not modelled.
  An operation that raises in the library returns \<^term>\<open>None\<close>.
\<close>

record tensor =
  shape :: "nat list"
  data :: "real list"

definition wf :: "tensor \<Rightarrow> bool" where
  "wf a \<longleftrightarrow> length (data a) = prod_list (shape a)"

text \<open>All index tuples of a shape, in row-major order.\<close>

fun idxs :: "nat list \<Rightarrow> nat list list" where
  "idxs [] = [[]]"
| "idxs (d # s) = concat (map (\<lambda>k. map (Cons k) (idxs s)) [0..<d])"

text \<open>Position of an index tuple in the row-major buffer.\<close>

fun offset :: "nat list \<Rightarrow> nat list \<Rightarrow> nat" where
  "offset (d # s) (k # i) = k * prod_list s + offset s i"
| "offset _ _ = 0"

definition el :: "tensor \<Rightarrow> nat list \<Rightarrow> real" where
  "el a i = data a ! offset (shape a) i"

definition mk :: "nat list \<Rightarrow> (nat list \<Rightarrow> real) \<Rightarrow> tensor" where
  "mk s f = \<lparr>shape = s, data = map f (idxs s)\<rparr>"

definition zeros :: "nat list \<Rightarrow> tensor" where
  "zeros s = mk s (\<lambda>_. 0)"

subsection \<open>Broadcasting\<close>

text \<open>
  NumPy/TensorFlow broadcasting: shapes are aligned at their last axis, the shorter one
  is padded with leading 1s, and two extents are compatible when they are equal or one of
  them is 1.
\<close>

definition bdim :: "nat \<Rightarrow> nat \<Rightarrow> nat option" where
  "bdim a b = (if a = b then Some a else if a = 1 then Some b
               else if b = 1 then Some a else None)"

fun bzip :: "nat list \<Rightarrow> nat list \<Rightarrow> nat list option" where
  "bzip [] [] = Some []"
| "bzip (a # as) (b # bs) =
     (case bdim a b of None \<Rightarrow> None
      | Some d \<Rightarrow> (case bzip as bs of None \<Rightarrow> None | Some ds \<Rightarrow> Some (d # ds)))"
| "bzip _ _ = None"

definition pad :: "nat \<Rightarrow> nat list \<Rightarrow> nat list" where
  "pad n s = replicate (n - length s) 1 @ s"

definition broadcast_shapes :: "nat list \<Rightarrow> nat list \<Rightarrow> nat list option" where
  "broadcast_shapes s1 s2 =
     (let n = max (length s1) (length s2) in bzip (pad n s1) (pad n s2))"

text \<open>The index of the operand element that a result index reads.\<close>

definition bproj :: "nat list \<Rightarrow> nat list \<Rightarrow> nat list" where
  "bproj s i = map2 (\<lambda>d k. if d = 1 then 0 else k) s (drop (length i - length s) i)"

definition binop :: "(real \<Rightarrow> real \<Rightarrow> real) \<Rightarrow> tensor \<Rightarrow> tensor \<Rightarrow> tensor option" where
  "binop f a b =
     (case broadcast_shapes (shape a) (shape b) of
        None \<Rightarrow> None
      | Some s \<Rightarrow> Some (mk s (\<lambda>i. f (el a (bproj (shape a) i)) (el b (bproj (shape b) i)))))"

definition tadd :: "tensor \<Rightarrow> tensor \<Rightarrow> tensor option" where
  "tadd = binop (+)"

definition tsub :: "tensor \<Rightarrow> tensor \<Rightarrow> tensor option" where
  "tsub = binop (-)"

definition tmul :: "tensor \<Rightarrow> tensor \<Rightarrow> tensor option" where
  "tmul = binop (*)"

subsection \<open>The TensorFlow operations used by the stepper\<close>

text \<open>\<^verbatim>\<open>tf.square\<close>: elementwise.\<close>

definition square :: "tensor \<Rightarrow> tensor" where
  "square a = a\<lparr>data := map (\<lambda>x. x * x) (data a)\<rparr>"

text \<open>\<^verbatim>\<open>tf.reduce_sum(a)\<close> with no axis: the plain sum of all entries, a scalar.\<close>

definition reduce_sum :: "tensor \<Rightarrow> real" where
  "reduce_sum a = sum_list (data a)"

text \<open>\<^verbatim>\<open>tf.reduce_sum(a, axis=1, keepdims=True)\<close>; the axis must exist.\<close>

definition reduce_sum_axis1 :: "tensor \<Rightarrow> tensor option" where
  "reduce_sum_axis1 a =
     (let s = shape a in
      if length s < 2 then None
      else Some (mk (s[1 := 1])
                    (\<lambda>i. sum_list (map (\<lambda>k. el a (i[1 := k])) [0..<s ! 1]))))"

text \<open>
  \<^verbatim>\<open>tf.squeeze(a)\<close> with no axis removes every axis of extent 1;
  \<^verbatim>\<open>tf.squeeze(a, axis=[-1])\<close> removes the last axis and raises unless its extent
  is 1.  \<^verbatim>\<open>tf.expand_dims(a, -1)\<close> appends an axis of extent 1.  None of them moves
  data.
\<close>

definition squeeze :: "tensor \<Rightarrow> tensor" where
  "squeeze a = a\<lparr>shape := filter (\<lambda>d. d \<noteq> 1) (shape a)\<rparr>"

definition squeeze_last :: "tensor \<Rightarrow> tensor option" where
  "squeeze_last a =
     (if shape a \<noteq> [] \<and> last (shape a) = 1 then Some (a\<lparr>shape := butlast (shape a)\<rparr>)
      else None)"

definition expand_dims_last :: "tensor \<Rightarrow> tensor" where
  "expand_dims_last a = a\<lparr>shape := shape a @ [1]\<rparr>"

text \<open>
  \<^verbatim>\<open>tf.matmul(a, b)\<close>: both operands have rank at least 2, the last two axes are
  multiplied as matrices and the leading (batch) axes are broadcast.
\<close>

definition matmul :: "tensor \<Rightarrow> tensor \<Rightarrow> tensor option" where
  "matmul a b =
     (let sa = shape a; sb = shape b; ra = length sa; rb = length sb in
      if ra < 2 \<or> rb < 2 then None
      else if sa ! (ra - 1) \<noteq> sb ! (rb - 2) then None
      else
        (let ba = take (ra - 2) sa; bb = take (rb - 2) sb in
         case broadcast_shapes ba bb of
           None \<Rightarrow> None
         | Some bs \<Rightarrow>
             Some (mk (bs @ [sa ! (ra - 2), sb ! (rb - 1)])
               (\<lambda>i. let bi = take (length bs) i; r = i ! length bs; c = i ! (length bs + 1)
                    in sum_list (map (\<lambda>j. el a (bproj ba bi @ [r, j]) * el b (bproj bb bi @ [j, c]))
                                     [0..<sa ! (ra - 1)])))))"

text \<open>\<^verbatim>\<open>tf.tile(a, [m, 1])\<close>: \<open>a\<close> must have rank 2; its rows are repeated \<open>m\<close> times.\<close>

definition tile_rows :: "tensor \<Rightarrow> nat \<Rightarrow> tensor option" where
  "tile_rows a m =
     (case shape a of
        [r, c] \<Rightarrow> Some (mk [r * m, c] (\<lambda>i. el a [i ! 0 mod r, i ! 1]))
      | _ \<Rightarrow> None)"

text \<open>
  \<^verbatim>\<open>tf.concat([a, b], 1)\<close>: equal ranks, at least 2, and equal extents on every axis but
  axis 1.
\<close>

definition concat1 :: "tensor \<Rightarrow> tensor \<Rightarrow> tensor option" where
  "concat1 a b =
     (let sa = shape a; sb = shape b in
      if length sa < 2 \<or> length sa \<noteq> length sb \<or> sa[1 := 0] \<noteq> sb[1 := 0] then None
      else Some (mk (sa[1 := sa ! 1 + sb ! 1])
                    (\<lambda>i. if i ! 1 < sa ! 1 then el a i else el b (i[1 := i ! 1 - sa ! 1]))))"

text \<open>
  \<^verbatim>\<open>a[:, n, :]\<close>: three index expressions, so the rank must be at least 3, and \<open>n\<close> must
  be inside axis 1; that axis is dropped.
\<close>

definition slice1 :: "tensor \<Rightarrow> nat \<Rightarrow> tensor option" where
  "slice1 a n =
     (let s = shape a in
      if length s < 3 \<or> \<not> n < s ! 1 then None
      else Some (mk (hd s # drop 2 s) (\<lambda>i. el a (hd i # n # tl i))))"

text \<open>
  \<^verbatim>\<open>tf.stack(xs, axis=1)\<close>: a non-empty list of tensors of one shape, of rank at least 1;
  the new axis 1 indexes the list.
\<close>

definition stack1 :: "tensor list \<Rightarrow> tensor option" where
  "stack1 xs =
     (case xs of
        [] \<Rightarrow> None
      | x # _ \<Rightarrow>
          if shape x = [] \<or> \<not> list_all (\<lambda>y. shape y = shape x) xs then None
          else Some (mk (hd (shape x) # length xs # tl (shape x))
                        (\<lambda>i. el (xs ! (i ! 1)) (hd i # drop 2 i))))"

text \<open>\<^verbatim>\<open>a[0, 0, 0]\<close>: rank at least 3 and non-empty leading axes.\<close>

definition index000 :: "tensor \<Rightarrow> tensor option" where
  "index000 a =
     (let s = shape a in
      if length s < 3 \<or> s ! 0 = 0 \<or> s ! 1 = 0 \<or> s ! 2 = 0 then None
      else Some (mk (drop 3 s) (\<lambda>i. el a (0 # 0 # 0 # i))))"

text \<open>
  A Python scalar used as an array operand is a tensor of shape \<open>[]\<close>.  Formatting a
  value with \<^verbatim>\<open>%.3f\<close> needs an array of exactly one entry.
\<close>

definition scalar :: "real \<Rightarrow> tensor" where
  "scalar x = mk [] (\<lambda>_. x)"

definition to_scalar :: "tensor \<Rightarrow> real option" where
  "to_scalar a = (case data a of [x] \<Rightarrow> Some x | _ \<Rightarrow> None)"

subsection \<open>Binary64 arithmetic\<close>

text \<open>
  The arrays of the path simulator are NumPy arrays of IEEE 754 binary64 numbers, and
  \<^verbatim>\<open>T/N\<close> is a binary64 division: every operation returns the exact result rounded to
  the nearest binary64 number, ties to the even significand.  \<open>fl64\<close> is this rounding.
  A number of magnitude in \<open>[2\<^sup>e, 2\<^sup>e\<^sup>+\<^sup>1)\<close> is rounded to a multiple of \<open>2\<^sup>e\<^sup>-\<^sup>5\<^sup>2\<close>; the
  exponent \<open>e\<close> is at least \<open>-1022\<close> (below, the subnormal numbers are the multiples of
  \<open>2\<^sup>-\<^sup>1\<^sup>0\<^sup>7\<^sup>4\<close>) and at most \<open>1023\<close>.  Scalars stay real numbers: the overflow to
  infinity beyond the largest binary64 number is not represented.
\<close>

definition round_even :: "real \<Rightarrow> int" where
  "round_even x =
     (let n = \<lfloor>x\<rfloor>; r = x - of_int n
      in if r < 1 / 2 then n else if 1 / 2 < r then n + 1 else if even n then n else n + 1)"

definition pow2 :: "int \<Rightarrow> real" where
  "pow2 e = (if 0 \<le> e then 2 ^ nat e else 1 / 2 ^ nat (- e))"

fun exp_up :: "nat \<Rightarrow> int \<Rightarrow> real \<Rightarrow> int" where
  "exp_up 0 e x = e"
| "exp_up (Suc k) e x = (if pow2 (e + 1) \<le> x then exp_up k (e + 1) x else e)"

fun exp_down :: "nat \<Rightarrow> int \<Rightarrow> real \<Rightarrow> int" where
  "exp_down 0 e x = e"
| "exp_down (Suc k) e x = (if pow2 e \<le> x then e else exp_down k (e - 1) x)"

definition exponent :: "real \<Rightarrow> int" where
  "exponent x = (if 1 \<le> \<bar>x\<bar> then exp_up 1023 0 \<bar>x\<bar> else exp_down 1022 0 \<bar>x\<bar>)"

definition fl64 :: "real \<Rightarrow> real" where
  "fl64 x = (let u = pow2 (exponent x - 52) in real_of_int (round_even (x / u)) * u)"

text \<open>An array whose entries are rounded to binary64.\<close>

definition rounded :: "tensor \<Rightarrow> tensor" where
  "rounded a = mk (shape a) (\<lambda>i. fl64 (el a i))"

subsection \<open>The NumPy operations used by the path simulator\<close>

text \<open>
  \<^verbatim>\<open>a[:, 1:, :] = v\<close> on a rank-3 array: \<open>v\<close> is broadcast to the shape of the slice,
  and entry 0 of axis 1 keeps its value.
\<close>

definition assign_from1 :: "tensor \<Rightarrow> tensor \<Rightarrow> tensor option" where
  "assign_from1 a v =
     (case shape a of
        [m, n, d] \<Rightarrow>
          if broadcast_shapes (shape v) [m, n - 1, d] = Some [m, n - 1, d]
          then Some (mk [m, n, d]
                 (\<lambda>i. if i ! 1 = 0 then el a i
                      else el v (bproj (shape v) [i ! 0, i ! 1 - 1, i ! 2])))
          else None
      | _ \<Rightarrow> None)"

text \<open>
  \<^verbatim>\<open>np.cumsum(a, axis=1)\<close>: running sums along axis 1, which must exist.  The first
  entry is copied, and each further entry is the binary64 sum of the previous running sum
  and the next entry of the array.
\<close>

fun running_sum :: "(nat \<Rightarrow> real) \<Rightarrow> nat \<Rightarrow> real" where
  "running_sum f 0 = f 0"
| "running_sum f (Suc n) = fl64 (running_sum f n + f (Suc n))"

definition cumsum1 :: "tensor \<Rightarrow> tensor option" where
  "cumsum1 a =
     (if length (shape a) < 2 then None
      else Some (mk (shape a) (\<lambda>i. running_sum (\<lambda>k. el a (i[1 := k])) (i ! 1))))"

section \<open>The FBSNN class\<close>

text \<open>
  An object of class \<^verbatim>\<open>FBSNN\<close>: the constructor's fields, the four methods a subclass
  supplies (\<^verbatim>\<open>phi_tf\<close>, \<^verbatim>\<open>g_tf\<close>, \<^verbatim>\<open>mu_tf\<close>, \<^verbatim>\<open>sigma_tf\<close>), and the library
  objects it calls.  The trainable variables of \<^verbatim>\<open>self.model\<close> (with the optimizer's own
  slots) are the only mutable state; they have the abstract type \<open>'p\<close> and are passed
  explicitly.
  \<^item> \<open>model p x\<close> is the forward pass \<^verbatim>\<open>self.model(x)\<close> under the variables \<open>p\<close>;
  \<^item> \<open>gradient f x\<close> is \<^verbatim>\<open>tape.gradient(f(x), x)\<close> of a \<^verbatim>\<open>GradientTape\<close> that
    watches \<open>x\<close>;
  \<^item> \<open>apply_gradients lr L p\<close> is the result of \<^verbatim>\<open>optimizer.apply_gradients\<close> on the
    gradients \<^verbatim>\<open>tape.gradient(loss, trainable_variables)\<close> of the taped loss \<open>L\<close>, a
    function of the variables, at \<open>p\<close>, with learning rate \<open>lr\<close>.
\<close>

record 'p fbsnn =
  self_Xi :: tensor
  self_T :: real
  self_M :: nat
  self_N :: nat
  self_D :: nat
  model :: "'p \<Rightarrow> tensor \<Rightarrow> tensor option"
  phi_tf :: "tensor \<Rightarrow> tensor \<Rightarrow> tensor \<Rightarrow> tensor \<Rightarrow> tensor"
  g_tf :: "tensor \<Rightarrow> tensor"
  mu_tf :: "tensor \<Rightarrow> tensor \<Rightarrow> tensor \<Rightarrow> tensor \<Rightarrow> tensor"
  sigma_tf :: "tensor \<Rightarrow> tensor \<Rightarrow> tensor \<Rightarrow> tensor"
  gradient :: "(tensor \<Rightarrow> tensor option) \<Rightarrow> tensor \<Rightarrow> tensor option"
  apply_gradients :: "real \<Rightarrow> ('p \<Rightarrow> real option) \<Rightarrow> 'p \<Rightarrow> 'p"

subsection \<open>\<^verbatim>\<open>net_u\<close> and \<^verbatim>\<open>Dg_tf\<close>\<close>

definition net_u :: "'p fbsnn \<Rightarrow> 'p \<Rightarrow> tensor \<Rightarrow> tensor \<Rightarrow> (tensor \<times> tensor) option" where
  "net_u self p t X = do {
     inp \<leftarrow> concat1 t X;
     u \<leftarrow> model self p inp;
     Du \<leftarrow> gradient self (\<lambda>X'. concat1 t X' \<bind> model self p) X;
     Some (u, Du)
   }"

definition Dg_tf :: "'p fbsnn \<Rightarrow> tensor \<Rightarrow> tensor option" where
  "Dg_tf self X = gradient self (\<lambda>X'. Some (g_tf self X')) X"

subsection \<open>\<^verbatim>\<open>loss_function\<close>\<close>

text \<open>
  The two assignments of the loop body that the claims are about, each as one definition
  (source lines 78 and 79).  The first squeezes the product with \<^verbatim>\<open>axis=[-1]\<close>, the
  second with no axis.
\<close>

definition step_X1 ::
  "'p fbsnn \<Rightarrow> tensor \<Rightarrow> tensor \<Rightarrow> tensor \<Rightarrow> tensor \<Rightarrow> tensor \<Rightarrow> tensor \<Rightarrow> tensor \<Rightarrow> tensor option" where
  "step_X1 self t0' t1' W0' W1' X0' Y0' Z0' = do {
     dt \<leftarrow> tsub t1' t0';
     a \<leftarrow> tmul (mu_tf self t0' X0' Y0' Z0') dt;
     b \<leftarrow> tadd X0' a;
     dW \<leftarrow> tsub W1' W0';
     c \<leftarrow> matmul (sigma_tf self t0' X0' Y0') (expand_dims_last dW);
     d \<leftarrow> squeeze_last c;
     tadd b d
   }"

definition step_Y1_tilde ::
  "'p fbsnn \<Rightarrow> tensor \<Rightarrow> tensor \<Rightarrow> tensor \<Rightarrow> tensor \<Rightarrow> tensor \<Rightarrow> tensor \<Rightarrow> tensor \<Rightarrow> tensor option" where
  "step_Y1_tilde self t0' t1' W0' W1' X0' Y0' Z0' = do {
     dt \<leftarrow> tsub t1' t0';
     a \<leftarrow> tmul (phi_tf self t0' X0' Y0' Z0') dt;
     b \<leftarrow> tadd Y0' a;
     dW \<leftarrow> tsub W1' W0';
     c \<leftarrow> matmul (sigma_tf self t0' X0' Y0') (expand_dims_last dW);
     e \<leftarrow> tmul Z0' (squeeze c);
     r \<leftarrow> reduce_sum_axis1 e;
     tadd b r
   }"

text \<open>
  The local variables of \<^verbatim>\<open>loss_function\<close>.  \<^verbatim>\<open>X1\<close>, \<^verbatim>\<open>Y1\<close> and \<^verbatim>\<open>Z1\<close> are bound
  only inside the loop body, so they are optional: \<^term>\<open>None\<close> is an unbound name.
\<close>

record locals =
  loss :: real
  X_list :: "tensor list"
  Y_list :: "tensor list"
  t0 :: tensor
  W0 :: tensor
  X0 :: tensor
  Y0 :: tensor
  Z0 :: tensor
  X1 :: "tensor option"
  Y1 :: "tensor option"
  Z1 :: "tensor option"

definition loop_body :: "'p fbsnn \<Rightarrow> 'p \<Rightarrow> tensor \<Rightarrow> tensor \<Rightarrow> nat \<Rightarrow> locals \<Rightarrow> locals option" where
  "loop_body self p t W n l = do {
     t1' \<leftarrow> slice1 t (n + 1);
     W1' \<leftarrow> slice1 W (n + 1);
     X1' \<leftarrow> step_X1 self (t0 l) t1' (W0 l) W1' (X0 l) (Y0 l) (Z0 l);
     Y1_tilde \<leftarrow> step_Y1_tilde self (t0 l) t1' (W0 l) W1' (X0 l) (Y0 l) (Z0 l);
     (Y1', Z1') \<leftarrow> net_u self p t1' X1';
     d \<leftarrow> tsub Y1' Y1_tilde;
     Some \<lparr>loss = loss l + reduce_sum (square d),
           X_list = X_list l @ [X1'], Y_list = Y_list l @ [Y1'],
           t0 = t1', W0 = W1', X0 = X1', Y0 = Y1', Z0 = Z1',
           X1 = Some X1', Y1 = Some Y1', Z1 = Some Z1'\<rparr>
   }"

text \<open>\<^verbatim>\<open>for n in ns: body\<close>, stopping at the first exception.\<close>

fun for_loop :: "(nat \<Rightarrow> 's \<Rightarrow> 's option) \<Rightarrow> nat list \<Rightarrow> 's \<Rightarrow> 's option" where
  "for_loop body [] l = Some l"
| "for_loop body (n # ns) l = (case body n l of None \<Rightarrow> None | Some l' \<Rightarrow> for_loop body ns l')"

definition loss_function ::
  "'p fbsnn \<Rightarrow> 'p \<Rightarrow> tensor \<Rightarrow> tensor \<Rightarrow> tensor \<Rightarrow> (real \<times> tensor \<times> tensor \<times> tensor) option" where
  "loss_function self p t W Xi = do {
     t0' \<leftarrow> slice1 t 0;
     W0' \<leftarrow> slice1 W 0;
     X0' \<leftarrow> tile_rows Xi (self_M self);
     (Y0', Z0') \<leftarrow> net_u self p t0' X0';
     l \<leftarrow> for_loop (loop_body self p t W) [0..<self_N self]
            \<lparr>loss = 0, X_list = [X0'], Y_list = [Y0'],
             t0 = t0', W0 = W0', X0 = X0', Y0 = Y0', Z0 = Z0',
             X1 = None, Y1 = None, Z1 = None\<rparr>;
     Y1' \<leftarrow> Y1 l;
     X1' \<leftarrow> X1 l;
     dY \<leftarrow> tsub Y1' (g_tf self X1');
     Z1' \<leftarrow> Z1 l;
     Dg \<leftarrow> Dg_tf self X1';
     dZ \<leftarrow> tsub Z1' Dg;
     X \<leftarrow> stack1 (X_list l);
     Y \<leftarrow> stack1 (Y_list l);
     Y000 \<leftarrow> index000 Y;
     Some (loss l + reduce_sum (square dY) + reduce_sum (square dZ), X, Y, Y000)
   }"

subsection \<open>\<^verbatim>\<open>fetch_minibatch\<close>\<close>

text \<open>
  \<open>normal\<close> is the array that \<^verbatim>\<open>np.random.normal(size=(M,N,D))\<close> returns at this call,
  given entry by entry.  \<^verbatim>\<open>T/N\<close> raises \<^verbatim>\<open>ZeroDivisionError\<close> when \<open>N = 0\<close>.  The
  quotient \<^verbatim>\<open>T/N\<close>, the square root, the products with the draws and the running sums
  are binary64 operations.
\<close>

definition fetch_minibatch :: "'p fbsnn \<Rightarrow> (nat list \<Rightarrow> real) \<Rightarrow> (tensor \<times> tensor) option" where
  "fetch_minibatch self normal =
     (let T = self_T self; M = self_M self; N = self_N self; D = self_D self;
          Dt = zeros [M, N + 1, 1];
          DW = zeros [M, N + 1, D]
      in if N = 0 then None
         else do {
           let dt = fl64 (T / real N);
           Dt \<leftarrow> assign_from1 Dt (scalar dt);
           r \<leftarrow> tmul (scalar (fl64 (sqrt dt))) (mk [M, N, D] normal);
           DW \<leftarrow> assign_from1 DW (rounded r);
           t \<leftarrow> cumsum1 Dt;
           W \<leftarrow> cumsum1 DW;
           Some (t, W)
         })"

subsection \<open>\<^verbatim>\<open>train\<close> and \<^verbatim>\<open>predict\<close>\<close>

text \<open>
  What \<^verbatim>\<open>train\<close> reads from outside the object: the successive readings of
  \<^verbatim>\<open>time.time()\<close> and the successive arrays drawn from the random generator.
\<close>

record world =
  clock :: "nat \<Rightarrow> real"
  draw :: "nat \<Rightarrow> nat list \<Rightarrow> real"

text \<open>One printed line: the five values substituted into the format string.\<close>

record report =
  r_it :: nat
  r_loss :: real
  r_Y0 :: real
  r_elapsed :: real
  r_learning_rate :: real

text \<open>
  The state of a training run: the trainable variables, the local \<^verbatim>\<open>start_time\<close>, how
  many clock readings and random arrays have been consumed, and the lines printed so far.
\<close>

record 'p train_state =
  params :: 'p
  start_time :: real
  ticks :: nat
  draws :: nat
  printed :: "report list"

definition train_body ::
  "'p fbsnn \<Rightarrow> world \<Rightarrow> real \<Rightarrow> nat \<Rightarrow> 'p train_state \<Rightarrow> 'p train_state option" where
  "train_body self w learning_rate it st = do {
     (t_batch, W_batch) \<leftarrow> fetch_minibatch self (draw w (draws st));
     let Xi = self_Xi self;
     (loss', _, _, Y0_pred) \<leftarrow> loss_function self (params st) t_batch W_batch Xi;
     let p' = apply_gradients self learning_rate
                (\<lambda>q. map_option fst (loss_function self q t_batch W_batch Xi)) (params st);
     let st' = st\<lparr>params := p', draws := draws st + 1\<rparr>;
     if it mod 10 = 0 then do {
       let elapsed = clock w (ticks st') - start_time st';
       (_, _, _, Y0_value) \<leftarrow> loss_function self p' t_batch W_batch Xi;
       y \<leftarrow> to_scalar Y0_value;
       Some (st'\<lparr>printed := printed st' @
                   [\<lparr>r_it = it, r_loss = loss', r_Y0 = y, r_elapsed = elapsed,
                     r_learning_rate = learning_rate\<rparr>],
                 start_time := clock w (ticks st' + 1),
                 ticks := ticks st' + 2\<rparr>)
     } else Some st'
   }"

text \<open>
  \<^verbatim>\<open>train(N_Iter, learning_rate)\<close>, started with the variables \<open>p\<close>, \<open>k\<close> clock readings
  and \<open>j\<close> random arrays already consumed.  \<^verbatim>\<open>range(N_Iter)\<close> is empty for \<open>N_Iter \<le> 0\<close>.
\<close>

definition train ::
  "'p fbsnn \<Rightarrow> world \<Rightarrow> int \<Rightarrow> real \<Rightarrow> 'p \<Rightarrow> nat \<Rightarrow> nat \<Rightarrow> 'p train_state option" where
  "train self w N_Iter learning_rate p k j =
     for_loop (train_body self w learning_rate) [0..<nat N_Iter]
       \<lparr>params = p, start_time = clock w k, ticks = k + 1, draws = j, printed = []\<rparr>"

text \<open>
  \<^verbatim>\<open>predict\<close> returns the two trajectories; the variables after the call are returned
  with them.
\<close>

definition predict ::
  "'p fbsnn \<Rightarrow> 'p \<Rightarrow> tensor \<Rightarrow> tensor \<Rightarrow> tensor \<Rightarrow> ((tensor \<times> tensor) \<times> 'p) option" where
  "predict self p Xi_star t_star W_star = do {
     (_, X_star, Y_star, _) \<leftarrow> loss_function self p t_star W_star Xi_star;
     Some ((X_star, Y_star), p)
   }"

section \<open>Shape contracts\<close>

definition has_shape :: "tensor \<Rightarrow> nat list \<Rightarrow> bool" where
  "has_shape a s \<longleftrightarrow> wf a \<and> shape a = s"

text \<open>
  The shape comments of the source, as a predicate on an object: with \<open>M\<close> and \<open>D\<close> at
  least 1, the subclass methods map arguments of the commented shapes to results of the
  commented shapes, the network maps \<open>M \<times> (D+1)\<close> to \<open>M \<times> 1\<close>, and the gradient tape
  returns a gradient of the shape of the watched \<open>M \<times> D\<close> tensor, both for the network
  and for \<^verbatim>\<open>g_tf\<close>.
\<close>

definition contract :: "'p fbsnn \<Rightarrow> bool" where
  "contract self \<longleftrightarrow>
     (let M = self_M self; D = self_D self in
      0 < M \<and> 0 < D \<and>
      (\<forall>t X Y Z. has_shape t [M, 1] \<and> has_shape X [M, D] \<and> has_shape Y [M, 1] \<and> has_shape Z [M, D]
         \<longrightarrow> has_shape (mu_tf self t X Y Z) [M, D] \<and>
             has_shape (phi_tf self t X Y Z) [M, 1] \<and>
             has_shape (sigma_tf self t X Y) [M, D, D]) \<and>
      (\<forall>X. has_shape X [M, D] \<longrightarrow> has_shape (g_tf self X) [M, 1]) \<and>
      (\<forall>X. has_shape X [M, D]
         \<longrightarrow> (\<exists>G. gradient self (\<lambda>X'. Some (g_tf self X')) X = Some G \<and> has_shape G [M, D])) \<and>
      (\<forall>p inp. has_shape inp [M, D + 1]
         \<longrightarrow> (\<exists>u. model self p inp = Some u \<and> has_shape u [M, 1])) \<and>
      (\<forall>p t X. has_shape t [M, 1] \<and> has_shape X [M, D]
         \<longrightarrow> (\<exists>G. gradient self (\<lambda>X'. concat1 t X' \<bind> model self p) X = Some G \<and>
                  has_shape G [M, D])))"

section \<open>A small problem instance\<close>

text \<open>
  A concrete object on which the definitions can be run: two trajectories, one step, one
  dimension, one trainable variable \<open>p\<close>.  The network is \<open>u(t, x) = p \<cdot> x\<^sub>1\<close>, the drift
  is \<open>x\<close>, the diffusion is the all-ones matrix, the generator is \<open>y\<close> and the terminal
  condition is the sum of the coordinates.  The gradient tape is a forward difference of
  step 1, which is exact on the affine functions of this instance, and the optimizer takes
  a descent step along a forward difference of the loss.
\<close>

definition bump :: "tensor \<Rightarrow> nat list \<Rightarrow> tensor" where
  "bump x i = x\<lparr>data := (data x)[offset (shape x) i := el x i + 1]\<rparr>"

definition fd_gradient :: "(tensor \<Rightarrow> tensor option) \<Rightarrow> tensor \<Rightarrow> tensor option" where
  "fd_gradient f x =
     (case f x of
        None \<Rightarrow> None
      | Some y \<Rightarrow>
          Some (mk (shape x)
                  (\<lambda>i. case f (bump x i) of
                         None \<Rightarrow> 0
                       | Some y' \<Rightarrow> reduce_sum y' - reduce_sum y)))"

definition row_sums :: "tensor \<Rightarrow> tensor" where
  "row_sums x = mk [hd (shape x), 1] (\<lambda>i. sum_list (map (\<lambda>k. el x [i ! 0, k]) [0..<shape x ! 1]))"

definition demo :: "nat \<Rightarrow> nat \<Rightarrow> nat \<Rightarrow> real fbsnn" where
  "demo m n d =
     \<lparr>self_Xi = mk [1, d] (\<lambda>_. 1), self_T = real n, self_M = m, self_N = n, self_D = d,
      model = (\<lambda>p inp. case shape inp of
                         [a, b] \<Rightarrow> if b = d + 1 then Some (mk [a, 1] (\<lambda>i. p * el inp [i ! 0, 1]))
                                   else None
                       | _ \<Rightarrow> None),
      phi_tf = (\<lambda>t X Y Z. Y),
      g_tf = row_sums,
      mu_tf = (\<lambda>t X Y Z. X),
      sigma_tf = (\<lambda>t X Y. mk (shape X @ [d]) (\<lambda>_. 1)),
      gradient = fd_gradient,
      apply_gradients = (\<lambda>lr L p. case (L p, L (p + 1)) of
                                     (Some a, Some b) \<Rightarrow> p - lr * (b - a)
                                   | _ \<Rightarrow> p)\<rparr>"

text \<open>A clock that reads \<open>0, 1, 2, \<dots>\<close> seconds and a generator that always draws 1.\<close>

definition demo_world :: world where
  "demo_world = \<lparr>clock = real, draw = (\<lambda>k i. 1)\<rparr>"

text \<open>
  Time and noise arrays for two trajectories and \<open>k\<close> steps of one dimension: time
  \<open>0, 1, \<dots>, k\<close> on both trajectories, noise \<open>n\<close> on the first and \<open>2n\<close> on the second.
\<close>

definition demo_t :: "nat \<Rightarrow> tensor" where
  "demo_t k = mk [2, Suc k, 1] (\<lambda>i. real (i ! 1))"

definition demo_W :: "nat \<Rightarrow> tensor" where
  "demo_W k = mk [2, Suc k, 1] (\<lambda>i. real (i ! 1) * (1 + real (i ! 0)))"

section \<open>The stepper as a recursion on the step index\<close>

text \<open>
  The state \<open>(X\<^sub>n, Y\<^sub>n, Z\<^sub>n)\<close> that the loop of \<^verbatim>\<open>loss_function\<close> holds in
  \<^verbatim>\<open>X0, Y0, Z0\<close> after \<open>n\<close> iterations, the target \<^verbatim>\<open>Y1_tilde\<close> computed in iteration
  \<open>n\<close>, and the plain sum of the squared entries of a difference.  They are built from the
  same \<^const>\<open>step_X1\<close>, \<^const>\<open>step_Y1_tilde\<close> and \<^const>\<open>net_u\<close> as the loop body and
  serve to state what the loop computes.
\<close>

fun bsde_state ::
  "'p fbsnn \<Rightarrow> 'p \<Rightarrow> tensor \<Rightarrow> tensor \<Rightarrow> tensor \<Rightarrow> nat \<Rightarrow> (tensor \<times> tensor \<times> tensor) option" where
  "bsde_state self p t W Xi 0 = do {
     t0' \<leftarrow> slice1 t 0;
     X0' \<leftarrow> tile_rows Xi (self_M self);
     (Y0', Z0') \<leftarrow> net_u self p t0' X0';
     Some (X0', Y0', Z0')
   }"
| "bsde_state self p t W Xi (Suc n) = do {
     (X0', Y0', Z0') \<leftarrow> bsde_state self p t W Xi n;
     t0' \<leftarrow> slice1 t n;
     t1' \<leftarrow> slice1 t (Suc n);
     W0' \<leftarrow> slice1 W n;
     W1' \<leftarrow> slice1 W (Suc n);
     X1' \<leftarrow> step_X1 self t0' t1' W0' W1' X0' Y0' Z0';
     (Y1', Z1') \<leftarrow> net_u self p t1' X1';
     Some (X1', Y1', Z1')
   }"

definition bsde_target ::
  "'p fbsnn \<Rightarrow> 'p \<Rightarrow> tensor \<Rightarrow> tensor \<Rightarrow> tensor \<Rightarrow> nat \<Rightarrow> tensor option" where
  "bsde_target self p t W Xi n = do {
     (X0', Y0', Z0') \<leftarrow> bsde_state self p t W Xi n;
     t0' \<leftarrow> slice1 t n;
     t1' \<leftarrow> slice1 t (Suc n);
     W0' \<leftarrow> slice1 W n;
     W1' \<leftarrow> slice1 W (Suc n);
     step_Y1_tilde self t0' t1' W0' W1' X0' Y0' Z0'
   }"

definition sum_sq_diff :: "tensor \<Rightarrow> tensor \<Rightarrow> real" where
  "sum_sq_diff a b = sum_list (map (\<lambda>i. (el a i - el b i)\<^sup>2) (idxs (shape a)))"

section \<open>The backward target as the specification words it\<close>

text \<open>
  Section 4.4 of the specification: \<open>Y1_tilde = Y0 + phi(t0,X0,Y0,Z0)\<cdot>\<Delta>t + Z0 \<cdot> (sigma(t0,X0,Y0) \<cdot> \<Delta>W)\<close>,
  the last term being, per trajectory, the inner product over the \<open>D\<close> dimensions of \<open>Z0\<close>
  with the matrix-vector product \<open>sigma \<cdot> \<Delta>W\<close>; the result is \<open>M \<times> 1\<close>.
\<close>

definition Y1_tilde_spec ::
  "'p fbsnn \<Rightarrow> tensor \<Rightarrow> tensor \<Rightarrow> tensor \<Rightarrow> tensor \<Rightarrow> tensor \<Rightarrow> tensor \<Rightarrow> tensor \<Rightarrow> tensor" where
  "Y1_tilde_spec self t0' t1' W0' W1' X0' Y0' Z0' =
     (let M = self_M self; D = self_D self;
          phi = phi_tf self t0' X0' Y0' Z0';
          sigma = sigma_tf self t0' X0' Y0'
      in mk [M, 1]
           (\<lambda>i. el Y0' [i ! 0, 0]
                + el phi [i ! 0, 0] * (el t1' [i ! 0, 0] - el t0' [i ! 0, 0])
                + sum_list (map (\<lambda>j. el Z0' [i ! 0, j] *
                     sum_list (map (\<lambda>k. el sigma [i ! 0, j, k] * (el W1' [i ! 0, k] - el W0' [i ! 0, k]))
                                   [0..<D]))
                   [0..<D])))"







section \<open>Index arithmetic\<close>

lemma length_concat_blocks:
  "(\<And>k. k < d \<Longrightarrow> length (f k) = P) \<Longrightarrow> length (concat (map f [0..<d])) = d * P"
  by (induction d) auto

lemma nth_concat_blocks:
  "(\<And>k. k < d \<Longrightarrow> length (f k) = P) \<Longrightarrow> n < d * P \<Longrightarrow>
   concat (map f [0..<d]) ! n = f (n div P) ! (n mod P)"
proof (induction d)
  case 0
  then show ?case by simp
next
  case (Suc d)
  have len: "length (concat (map f [0..<d])) = d * P"
    using Suc.prems(1) by (intro length_concat_blocks) simp
  show ?case
  proof (cases "n < d * P")
    case True
    then show ?thesis using Suc len by (simp add: nth_append)
  next
    case False
    with Suc.prems(2) have P: "0 < P" by (cases P) auto
    from False Suc.prems(2) have d: "n div P = d"
      by (simp add: div_nat_eqI mult.commute)
    then have m: "n mod P = n - d * P"
      by (metis minus_div_mult_eq_mod)
    from False show ?thesis using len d m by (simp add: nth_append)
  qed
qed

lemma length_idxs [simp]: "length (idxs s) = prod_list s"
  by (induction s) (auto simp: length_concat_blocks)

lemma nth_idxs_Cons:
  assumes n: "n < d * prod_list s"
  shows "idxs (d # s) ! n = (n div prod_list s) # (idxs s ! (n mod prod_list s))"
proof -
  from n have P: "0 < prod_list s" by (cases "prod_list s") auto
  have "concat (map (\<lambda>k. map (Cons k) (idxs s)) [0..<d]) ! n
        = map (Cons (n div prod_list s)) (idxs s) ! (n mod prod_list s)"
    by (rule nth_concat_blocks [where f = "\<lambda>k. map (Cons k) (idxs s)" and P = "prod_list s"])
       (simp_all add: n)
  also have "\<dots> = (n div prod_list s) # (idxs s ! (n mod prod_list s))"
    using P by simp
  finally show ?thesis by simp
qed

lemma offset_nth_idxs: "n < prod_list s \<Longrightarrow> offset s (idxs s ! n) = n"
proof (induction s arbitrary: n)
  case Nil
  then show ?case by simp
next
  case (Cons d s)
  then have P: "0 < prod_list s" by (cases "prod_list s") auto
  from Cons.prems have "idxs (d # s) ! n = (n div prod_list s) # (idxs s ! (n mod prod_list s))"
    by (intro nth_idxs_Cons) simp
  then show ?case using Cons.IH [of "n mod prod_list s"] P by (simp del: idxs.simps)
qed

lemma set_idxs: "i \<in> set (idxs s) \<longleftrightarrow> list_all2 (<) i s"
proof (induction s arbitrary: i)
  case Nil
  then show ?case by auto
next
  case (Cons d s)
  show ?case
  proof (cases i)
    case Nil
    then show ?thesis by auto
  next
    case (Cons k j)
    then show ?thesis using Cons.IH [of j] by (auto simp: image_iff)
  qed
qed

lemma offset_less: "list_all2 (<) i s \<Longrightarrow> offset s i < prod_list s"
proof (induction s arbitrary: i)
  case Nil
  then show ?case by simp
next
  case (Cons d s)
  then obtain k j where i: "i = k # j" and k: "k < d" and j: "list_all2 (<) j s"
    by (auto simp: list_all2_Cons2)
  from Cons.IH [OF j] have o: "offset s j < prod_list s" .
  have "k * prod_list s + offset s j < k * prod_list s + prod_list s" using o by simp
  also have "\<dots> = Suc k * prod_list s" by simp
  also have "\<dots> \<le> d * prod_list s" using k by (intro mult_le_mono1) simp
  finally show ?case using i by simp
qed

lemma nth_idxs_offset: "list_all2 (<) i s \<Longrightarrow> idxs s ! offset s i = i"
proof (induction s arbitrary: i)
  case Nil
  then show ?case by simp
next
  case (Cons d s)
  then obtain k j where i: "i = k # j" and k: "k < d" and j: "list_all2 (<) j s"
    by (auto simp: list_all2_Cons2)
  have o: "offset s j < prod_list s" using j by (rule offset_less)
  have lt: "offset (d # s) i < d * prod_list s"
    using offset_less [OF Cons.prems] by simp
  have "idxs (d # s) ! offset (d # s) i
        = (offset (d # s) i div prod_list s) # (idxs s ! (offset (d # s) i mod prod_list s))"
    using lt by (rule nth_idxs_Cons)
  moreover have "offset (d # s) i div prod_list s = k" using o i by simp
  moreover have "offset (d # s) i mod prod_list s = offset s j" using o i by simp
  ultimately show ?case using Cons.IH [OF j] i by (simp del: idxs.simps)
qed

lemma shape_mk [simp]: "shape (mk s f) = s"
  by (simp add: mk_def)

lemma wf_mk [simp]: "wf (mk s f)"
  by (simp add: mk_def wf_def)

lemma el_mk: "i \<in> set (idxs s) \<Longrightarrow> el (mk s f) i = f i"
  by (simp add: el_def mk_def set_idxs offset_less nth_idxs_offset)

lemma mk_el:
  assumes w: "wf a"
  shows "mk (shape a) (el a) = a"
proof -
  have "map (el a) (idxs (shape a)) = data a"
    using w by (auto simp: list_eq_iff_nth_eq wf_def el_def offset_nth_idxs)
  then show ?thesis by (simp add: mk_def)
qed

lemma mk_cong: "(\<And>i. i \<in> set (idxs s) \<Longrightarrow> f i = g i) \<Longrightarrow> mk s f = mk s g"
  by (simp add: mk_def)

lemma tensor_eqI:
  assumes "wf a" "wf b" "shape a = shape b"
    and "\<And>i. i \<in> set (idxs (shape a)) \<Longrightarrow> el a i = el b i"
  shows "a = b"
proof -
  have "mk (shape a) (el a) = mk (shape b) (el b)"
    using assms(3,4) by (simp add: mk_def)
  then show ?thesis using assms(1,2) by (simp add: mk_el)
qed

section \<open>The stepper needs at least one step\<close>

lemma loss_function_N0: "self_N self = 0 \<Longrightarrow> loss_function self p t W Xi = None"
  by (simp add: loss_function_def split: Option.bind_splits prod.splits)

lemma fetch_minibatch_N0: "self_N self = 0 \<Longrightarrow> fetch_minibatch self nrm = None"
  by (simp add: fetch_minibatch_def Let_def)

lemma train_N0:
  assumes "self_N self = 0" and "0 < N_Iter"
  shows "train self w N_Iter lr p k j = None"
proof -
  from assms(2) obtain n where n: "nat N_Iter = Suc n" by (cases "nat N_Iter") auto
  have "[0..<Suc n] = 0 # [1..<Suc n]" by (simp add: upt_rec)
  then show ?thesis using assms(1) n by (simp add: train_def train_body_def fetch_minibatch_N0)
qed

text \<open>
  Claim C10.  With step count \<open>N = 0\<close> the loop of \<^verbatim>\<open>loss_function\<close> runs no iteration and
  leaves the local variables as they were, with \<^verbatim>\<open>Y1\<close>, \<^verbatim>\<open>X1\<close> and \<^verbatim>\<open>Z1\<close> unbound, so
  the terminal penalty raises: \<^verbatim>\<open>loss_function\<close> fails on every input instead of
  returning a terminal-only loss, and so do \<^verbatim>\<open>predict\<close> and every \<^verbatim>\<open>train\<close> call of
  at least one iteration.
\<close>

theorem C10_no_step_no_result:
  assumes "self_N self = 0"
  shows "for_loop (loop_body self p t W) [0..<self_N self] l = Some l
       \<and> loss_function self p t W Xi = None
       \<and> predict self p Xi t W = None
       \<and> (0 < N_Iter \<longrightarrow> train self w N_Iter lr p k j = None)"
  using assms by (simp add: predict_def loss_function_N0 train_N0)

theorem C10_no_step_no_result_witness:
  "self_N (demo 2 0 1) = 0
   \<and> loss_function (demo 2 0 1) 1 (zeros [2, 1, 1]) (zeros [2, 1, 1]) (self_Xi (demo 2 0 1)) = None
   \<and> predict (demo 2 0 1) 1 (self_Xi (demo 2 0 1)) (zeros [2, 1, 1]) (zeros [2, 1, 1]) = None
   \<and> train (demo 2 0 1) demo_world 1 (1 / 10) 1 0 0 = None"
proof -
  have n: "self_N (demo 2 0 1) = 0" by (simp add: demo_def)
  show ?thesis
    using n C10_no_step_no_result [OF n, where p = 1 and t = "zeros [2, 1, 1]"
        and W = "zeros [2, 1, 1]" and Xi = "self_Xi (demo 2 0 1)" and N_Iter = 1
        and w = demo_world and lr = "1 / 10" and k = 0 and j = 0]
    by simp
qed

section \<open>Tensors of rank 1, 2 and 3\<close>

lemma has_shape_mk [simp]: "has_shape (mk s f) s' \<longleftrightarrow> s = s'"
  by (auto simp: has_shape_def)

lemma in_idxs1: "i \<in> set (idxs [m]) \<longleftrightarrow> (\<exists>a. i = [a] \<and> a < m)"
  unfolding set_idxs by (auto simp: list_all2_Cons2)

lemma in_idxs2: "i \<in> set (idxs [m, d]) \<longleftrightarrow> (\<exists>a b. i = [a, b] \<and> a < m \<and> b < d)"
  unfolding set_idxs by (auto simp: list_all2_Cons2)

lemma in_idxs3: "i \<in> set (idxs [m, n, d]) \<longleftrightarrow> (\<exists>a b c. i = [a, b, c] \<and> a < m \<and> b < n \<and> c < d)"
  unfolding set_idxs by (auto simp: list_all2_Cons2)

lemma el_mk1: "a < m \<Longrightarrow> el (mk [m] f) [a] = f [a]"
  by (rule el_mk) (simp only: in_idxs1, simp)

lemma el_mk2: "a < m \<Longrightarrow> b < d \<Longrightarrow> el (mk [m, d] f) [a, b] = f [a, b]"
  by (rule el_mk) (simp only: in_idxs2, simp)

lemma el_mk3: "a < m \<Longrightarrow> b < n \<Longrightarrow> c < d \<Longrightarrow> el (mk [m, n, d] f) [a, b, c] = f [a, b, c]"
  by (rule el_mk) (simp only: in_idxs3, simp)

lemma mk_cong2: "(\<And>a b. a < m \<Longrightarrow> b < d \<Longrightarrow> f [a, b] = g [a, b]) \<Longrightarrow> mk [m, d] f = mk [m, d] g"
  by (rule mk_cong) (auto simp only: in_idxs2)

lemma mk_cong3:
  "(\<And>a b c. a < m \<Longrightarrow> b < n \<Longrightarrow> c < d \<Longrightarrow> f [a, b, c] = g [a, b, c]) \<Longrightarrow>
   mk [m, n, d] f = mk [m, n, d] g"
  by (rule mk_cong) (auto simp only: in_idxs3)

lemma tensor_eqI2:
  assumes "has_shape x [m, d]" "has_shape y [m, d]"
    and "\<And>a b. a < m \<Longrightarrow> b < d \<Longrightarrow> el x [a, b] = el y [a, b]"
  shows "x = y"
proof (rule tensor_eqI)
  show "wf x" "wf y" "shape x = shape y" using assms(1,2) by (simp_all add: has_shape_def)
  fix i assume "i \<in> set (idxs (shape x))"
  then have "i \<in> set (idxs [m, d])" using assms(1) by (simp add: has_shape_def)
  then show "el x i = el y i" using assms(3) by (auto simp only: in_idxs2)
qed

lemma tensor_eqI3:
  assumes "has_shape x [m, n, d]" "has_shape y [m, n, d]"
    and "\<And>a b c. a < m \<Longrightarrow> b < n \<Longrightarrow> c < d \<Longrightarrow> el x [a, b, c] = el y [a, b, c]"
  shows "x = y"
proof (rule tensor_eqI)
  show "wf x" "wf y" "shape x = shape y" using assms(1,2) by (simp_all add: has_shape_def)
  fix i assume "i \<in> set (idxs (shape x))"
  then have "i \<in> set (idxs [m, n, d])" using assms(1) by (simp add: has_shape_def)
  then show "el x i = el y i" using assms(3) by (auto simp only: in_idxs3)
qed

lemma bzip_same: "bzip s s = Some s"
  by (induction s) (auto simp: bdim_def)

lemma broadcast_shapes_same [simp]: "broadcast_shapes s s = Some s"
  by (simp add: broadcast_shapes_def pad_def bzip_same)

lemma bproj_same:
  assumes a: "list_all2 (<) i s"
  shows "bproj s i = i"
proof -
  from a have len: "length i = length s" by (rule list_all2_lengthD)
  have "map2 (\<lambda>d k. if d = 1 then 0 else k) s i = i"
    using a by (induction i s rule: list_all2_induct) auto
  then show ?thesis using len by (simp add: bproj_def)
qed

lemma binop_same:
  "shape a = s \<Longrightarrow> shape b = s \<Longrightarrow> binop f a b = Some (mk s (\<lambda>i. f (el a i) (el b i)))"
  by (auto simp: binop_def set_idxs bproj_same intro!: mk_cong)

lemma binop_col:
  assumes "shape a = [m, d]" "shape b = [m, 1]"
  shows "binop f a b = Some (mk [m, d] (\<lambda>i. f (el a i) (el b [i ! 0, 0])))"
proof -
  have bs: "broadcast_shapes [m, d] [m, 1] = Some [m, d]"
    by (simp add: broadcast_shapes_def pad_def bdim_def)
  have "mk [m, d] (\<lambda>i. f (el a (bproj [m, d] i)) (el b (bproj [m, 1] i)))
      = mk [m, d] (\<lambda>i. f (el a i) (el b [i ! 0, 0]))"
    by (rule mk_cong2) (auto simp: bproj_def)
  then show ?thesis using assms bs by (simp add: binop_def)
qed

section \<open>The operations at the shapes of the stepper\<close>

lemma has_shapeD: "has_shape a s \<Longrightarrow> wf a" "has_shape a s \<Longrightarrow> shape a = s"
  by (simp_all add: has_shape_def)

lemma tsub_same: "shape a = s \<Longrightarrow> shape b = s \<Longrightarrow> tsub a b = Some (mk s (\<lambda>i. el a i - el b i))"
  by (simp add: tsub_def binop_same)

lemma tadd_same: "shape a = s \<Longrightarrow> shape b = s \<Longrightarrow> tadd a b = Some (mk s (\<lambda>i. el a i + el b i))"
  by (simp add: tadd_def binop_same)

lemma tmul_col:
  "shape a = [m, d] \<Longrightarrow> shape b = [m, 1] \<Longrightarrow>
   tmul a b = Some (mk [m, d] (\<lambda>i. el a i * el b [i ! 0, 0]))"
  by (simp add: tmul_def binop_col)

lemma has_shape_expand_dims_last [simp]:
  "has_shape a [m, d] \<Longrightarrow> has_shape (expand_dims_last a) [m, d, 1]"
  by (simp add: has_shape_def expand_dims_last_def wf_def)

lemma el_expand_dims_last:
  "shape a = [m, d] \<Longrightarrow> el (expand_dims_last a) [x, y, 0] = el a [x, y]"
  by (simp add: el_def expand_dims_last_def)

lemma matmul_batch:
  assumes "shape a = [m, d, e]" "shape b = [m, e, c]"
  shows "matmul a b = Some (mk [m, d, c]
           (\<lambda>i. sum_list (map (\<lambda>j. el a [i ! 0, i ! 1, j] * el b [i ! 0, j, i ! 2]) [0..<e])))"
proof -
  have "mk [m, d, c] (\<lambda>i. sum_list (map (\<lambda>j. el a (bproj [m] (take 1 i) @ [i ! 1, j]) *
                                       el b (bproj [m] (take 1 i) @ [j, i ! 2])) [0..<e]))
      = mk [m, d, c] (\<lambda>i. sum_list (map (\<lambda>j. el a [i ! 0, i ! 1, j] * el b [i ! 0, j, i ! 2]) [0..<e]))"
    by (rule mk_cong3) (auto simp: bproj_def)
  then show ?thesis using assms by (simp add: matmul_def Let_def numeral_2_eq_2 numeral_3_eq_3)
qed

lemma squeeze_last_col:
  assumes "has_shape a [m, d, 1]"
  shows "squeeze_last a = Some (mk [m, d] (\<lambda>i. el a [i ! 0, i ! 1, 0]))"
proof -
  have s: "squeeze_last a = Some (a\<lparr>shape := [m, d]\<rparr>)"
    using assms by (simp add: squeeze_last_def has_shape_def)
  have "a\<lparr>shape := [m, d]\<rparr> = mk [m, d] (\<lambda>i. el a [i ! 0, i ! 1, 0])"
  proof (rule tensor_eqI2)
    show "has_shape (a\<lparr>shape := [m, d]\<rparr>) [m, d]"
      using assms by (simp add: has_shape_def wf_def)
    show "has_shape (mk [m, d] (\<lambda>i. el a [i ! 0, i ! 1, 0])) [m, d]" by simp
    fix x y assume "x < m" "y < d"
    then show "el (a\<lparr>shape := [m, d]\<rparr>) [x, y] = el (mk [m, d] (\<lambda>i. el a [i ! 0, i ! 1, 0])) [x, y]"
      using assms by (simp add: el_mk2) (simp add: el_def has_shape_def)
  qed
  then show ?thesis using s by simp
qed

lemma slice1_3:
  assumes "shape a = [m, n, d]" "k < n"
  shows "slice1 a k = Some (mk [m, d] (\<lambda>i. el a [i ! 0, k, i ! 1]))"
proof -
  have "mk [m, d] (\<lambda>i. el a (hd i # k # tl i)) = mk [m, d] (\<lambda>i. el a [i ! 0, k, i ! 1])"
    by (rule mk_cong2) simp
  then show ?thesis using assms by (simp add: slice1_def Let_def)
qed

lemma tile_rows_1:
  assumes "shape a = [1, d]"
  shows "tile_rows a m = Some (mk [m, d] (\<lambda>i. el a [0, i ! 1]))"
  using assms by (simp add: tile_rows_def)

lemma concat1_shape:
  assumes "shape a = [m, c]" "shape b = [m, d]"
  shows "\<exists>r. concat1 a b = Some r \<and> has_shape r [m, c + d]"
  using assms by (simp add: concat1_def Let_def)

lemma reduce_sum_axis1_2:
  assumes "shape a = [m, d]"
  shows "reduce_sum_axis1 a = Some (mk [m, 1] (\<lambda>i. sum_list (map (\<lambda>k. el a [i ! 0, k]) [0..<d])))"
proof -
  have "mk [m, 1] (\<lambda>i. sum_list (map (\<lambda>k. el a (i[1 := k])) [0..<d]))
      = mk [m, 1] (\<lambda>i. sum_list (map (\<lambda>k. el a [i ! 0, k]) [0..<d]))"
    by (rule mk_cong2) simp
  then show ?thesis using assms by (simp add: reduce_sum_axis1_def Let_def)
qed

lemma stack1_2:
  assumes "xs \<noteq> []" "\<forall>x \<in> set xs. shape x = [m, d]"
  shows "stack1 xs = Some (mk [m, length xs, d] (\<lambda>i. el (xs ! (i ! 1)) [i ! 0, i ! 2]))"
proof -
  obtain x ys where xs: "xs = x # ys" using assms(1) by (cases xs) auto
  have all: "list_all (\<lambda>y. shape y = shape x) xs"
    using assms(2) xs by (auto simp: list_all_iff)
  have sx: "shape x = [m, d]" using assms(2) xs by simp
  have "mk [m, length xs, d] (\<lambda>i. el (xs ! (i ! 1)) (hd i # drop 2 i))
      = mk [m, length xs, d] (\<lambda>i. el (xs ! (i ! 1)) [i ! 0, i ! 2])"
    by (rule mk_cong3) simp
  then show ?thesis using all sx xs by (simp add: stack1_def)
qed

lemma slice1_stack1:
  assumes "\<forall>x \<in> set xs. has_shape x [m, d]" "k < length xs" "stack1 xs = Some s"
  shows "slice1 s k = Some (xs ! k)"
proof -
  have ne: "xs \<noteq> []" using assms(2) by auto
  have sh: "\<forall>x \<in> set xs. shape x = [m, d]" using assms(1) by (simp add: has_shape_def)
  have s: "s = mk [m, length xs, d] (\<lambda>i. el (xs ! (i ! 1)) [i ! 0, i ! 2])"
    using stack1_2 [OF ne sh] assms(3) by simp
  have "slice1 s k = Some (mk [m, d] (\<lambda>i. el s [i ! 0, k, i ! 1]))"
    using assms(2) by (intro slice1_3) (simp_all add: s)
  moreover have "mk [m, d] (\<lambda>i. el s [i ! 0, k, i ! 1]) = xs ! k"
  proof (rule tensor_eqI2)
    show "has_shape (mk [m, d] (\<lambda>i. el s [i ! 0, k, i ! 1])) [m, d]" by simp
    show "has_shape (xs ! k) [m, d]" using assms(1,2) by simp
    fix x y assume "x < m" "y < d"
    then show "el (mk [m, d] (\<lambda>i. el s [i ! 0, k, i ! 1])) [x, y] = el (xs ! k) [x, y]"
      using assms(2) by (simp add: el_mk2 s el_mk3)
  qed
  ultimately show ?thesis by simp
qed

lemma index000_3:
  assumes "shape a = [m, n, d]" "0 < m" "0 < n" "0 < d"
  shows "index000 a = Some (mk [] (\<lambda>i. el a [0, 0, 0]))"
proof -
  have "mk [] (\<lambda>i. el a (0 # 0 # 0 # i)) = mk [] (\<lambda>i. el a [0, 0, 0])"
    by (rule mk_cong) simp
  then show ?thesis using assms by (simp add: index000_def Let_def)
qed

section \<open>The forward step\<close>

lemma sum_list_upt_cong:
  "(\<And>j. j < d \<Longrightarrow> f j = g j) \<Longrightarrow> sum_list (map f [0..<d]) = sum_list (map g [0..<d])"
  by (rule arg_cong [where f = sum_list], rule map_cong) simp_all

lemma step_X1_closed:
  assumes c: "contract self"
    and M: "m = self_M self" and D: "d = self_D self"
    and t0: "has_shape t0' [m, 1]" and t1: "has_shape t1' [m, 1]"
    and W0: "has_shape W0' [m, d]" and W1: "has_shape W1' [m, d]"
    and X0: "has_shape X0' [m, d]" and Y0: "has_shape Y0' [m, 1]" and Z0: "has_shape Z0' [m, d]"
  shows "step_X1 self t0' t1' W0' W1' X0' Y0' Z0' =
    Some (mk [m, d] (\<lambda>i. el X0' i + el (mu_tf self t0' X0' Y0' Z0') i * (el t1' [i ! 0, 0] - el t0' [i ! 0, 0])
        + sum_list (map (\<lambda>j. el (sigma_tf self t0' X0' Y0') [i ! 0, i ! 1, j]
                              * (el W1' [i ! 0, j] - el W0' [i ! 0, j])) [0..<d])))"
proof -
  let ?mu = "mu_tf self t0' X0' Y0' Z0'" and ?sg = "sigma_tf self t0' X0' Y0'"
  have mu: "has_shape ?mu [m, d]" and sg: "has_shape ?sg [m, d, d]"
    using c t0 X0 Y0 Z0 unfolding contract_def Let_def M D by blast+
  let ?dt = "mk [m, 1] (\<lambda>i. el t1' i - el t0' i)"
  let ?a = "mk [m, d] (\<lambda>i. el ?mu i * el ?dt [i ! 0, 0])"
  let ?b = "mk [m, d] (\<lambda>i. el X0' i + el ?a i)"
  let ?dW = "mk [m, d] (\<lambda>i. el W1' i - el W0' i)"
  let ?c = "mk [m, d, 1] (\<lambda>i. sum_list (map (\<lambda>j. el ?sg [i ! 0, i ! 1, j] * el (expand_dims_last ?dW) [i ! 0, j, i ! 2]) [0..<d]))"
  let ?d = "mk [m, d] (\<lambda>i. el ?c [i ! 0, i ! 1, 0])"
  have 1: "tsub t1' t0' = Some ?dt"
    using t0 t1 by (simp add: tsub_same has_shape_def)
  have 2: "tmul ?mu ?dt = Some ?a"
    using mu by (simp add: tmul_col has_shape_def)
  have 3: "tadd X0' ?a = Some ?b"
    using X0 by (simp add: tadd_same has_shape_def)
  have 4: "tsub W1' W0' = Some ?dW"
    using W0 W1 by (simp add: tsub_same has_shape_def)
  have 5: "matmul ?sg (expand_dims_last ?dW) = Some ?c"
    using sg by (intro matmul_batch) (simp_all add: has_shape_def expand_dims_last_def)
  have 6: "squeeze_last ?c = Some ?d"
    by (intro squeeze_last_col) simp
  have 7: "tadd ?b ?d = Some (mk [m, d] (\<lambda>i. el ?b i + el ?d i))"
    by (simp add: tadd_same)
  have 8: "mk [m, d] (\<lambda>i. el ?b i + el ?d i) =
     mk [m, d] (\<lambda>i. el X0' i + el ?mu i * (el t1' [i ! 0, 0] - el t0' [i ! 0, 0])
        + sum_list (map (\<lambda>j. el ?sg [i ! 0, i ! 1, j] * (el W1' [i ! 0, j] - el W0' [i ! 0, j])) [0..<d]))"
  proof (rule mk_cong2)
    fix x y assume x: "x < m" and y: "y < d"
    have e: "\<And>j. j < d \<Longrightarrow> el (expand_dims_last ?dW) [x, j, 0] = el W1' [x, j] - el W0' [x, j]"
      using x by (simp add: el_expand_dims_last el_mk2)
    have "el ?d [x, y] = sum_list (map (\<lambda>j. el ?sg [x, y, j] * el (expand_dims_last ?dW) [x, j, 0]) [0..<d])"
      using x y by (simp add: el_mk2 el_mk3)
    also have "\<dots> = sum_list (map (\<lambda>j. el ?sg [x, y, j] * (el W1' [x, j] - el W0' [x, j])) [0..<d])"
      by (rule sum_list_upt_cong) (simp add: e)
    finally have "el ?d [x, y] = sum_list (map (\<lambda>j. el ?sg [x, y, j] * (el W1' [x, j] - el W0' [x, j])) [0..<d])" .
    moreover have "el ?b [x, y] = el X0' [x, y] + el ?mu [x, y] * (el t1' [x, 0] - el t0' [x, 0])"
      using x y by (simp add: el_mk2)
    ultimately show "el ?b [x, y] + el ?d [x, y] =
       el X0' [x, y] + el ?mu [x, y] * (el t1' [[x, y] ! 0, 0] - el t0' [[x, y] ! 0, 0])
        + sum_list (map (\<lambda>j. el ?sg [[x, y] ! 0, [x, y] ! 1, j] * (el W1' [[x, y] ! 0, j] - el W0' [[x, y] ! 0, j])) [0..<d])"
      by simp
  qed
  show ?thesis
    unfolding step_X1_def using 1 2 3 4 5 6 7 8 by simp
qed

section \<open>Broadcasting and zero tensors\<close>





lemma shape_zeros [simp]: "shape (zeros s) = s"
  by (simp add: zeros_def)

lemma has_shape_zeros [simp]: "has_shape (zeros s) s' \<longleftrightarrow> s = s'"
  by (simp add: zeros_def)

lemma el_zeros: "list_all2 (<) i s \<Longrightarrow> el (zeros s) i = 0"
  by (simp add: zeros_def el_mk set_idxs)








lemma broadcast_squeezed:
  assumes "0 < m" "0 < d"
  shows "\<exists>d'. broadcast_shapes [m, d] (filter (\<lambda>x. x \<noteq> 1) [m, d, 1]) = Some [m, d']"
proof (cases "m = 1"; cases "d = 1")
qed (simp_all add: broadcast_shapes_def pad_def bdim_def)

section \<open>The backward step and the network\<close>

lemma tmul_same: "shape a = s \<Longrightarrow> shape b = s \<Longrightarrow> tmul a b = Some (mk s (\<lambda>i. el a i * el b i))"
  by (simp add: tmul_def binop_same)




lemma contract_shapes:
  assumes "contract self" "m = self_M self" "d = self_D self"
    and "has_shape t [m, 1]" "has_shape X [m, d]" "has_shape Y [m, 1]" "has_shape Z [m, d]"
  shows "has_shape (mu_tf self t X Y Z) [m, d]"
    and "has_shape (phi_tf self t X Y Z) [m, 1]"
    and "has_shape (sigma_tf self t X Y) [m, d, d]"
  using assms unfolding contract_def Let_def by blast+

lemma contract_pos:
  assumes "contract self"
  shows "0 < self_M self" "0 < self_D self"
  using assms unfolding contract_def Let_def by blast+

lemma step_Y1_tilde_shape:
  assumes c: "contract self"
    and M: "m = self_M self" and D: "d = self_D self"
    and t0: "has_shape t0' [m, 1]" and t1: "has_shape t1' [m, 1]"
    and W0: "has_shape W0' [m, d]" and W1: "has_shape W1' [m, d]"
    and X0: "has_shape X0' [m, d]" and Y0: "has_shape Y0' [m, 1]" and Z0: "has_shape Z0' [m, d]"
  shows "\<exists>y. step_Y1_tilde self t0' t1' W0' W1' X0' Y0' Z0' = Some y \<and> has_shape y [m, 1]"
proof -
  let ?phi = "phi_tf self t0' X0' Y0' Z0'" and ?sg = "sigma_tf self t0' X0' Y0'"
  have phi: "has_shape ?phi [m, 1]" and sg: "has_shape ?sg [m, d, d]"
    using contract_shapes [OF c M D t0 X0 Y0 Z0] by simp_all
  have pos: "0 < m" "0 < d" using contract_pos [OF c] M D by simp_all
  let ?dt = "mk [m, 1] (\<lambda>i. el t1' i - el t0' i)"
  let ?a = "mk [m, 1] (\<lambda>i. el ?phi i * el ?dt i)"
  let ?b = "mk [m, 1] (\<lambda>i. el Y0' i + el ?a i)"
  let ?dW = "mk [m, d] (\<lambda>i. el W1' i - el W0' i)"
  let ?c = "mk [m, d, 1] (\<lambda>i. sum_list (map (\<lambda>j. el ?sg [i ! 0, i ! 1, j] * el (expand_dims_last ?dW) [i ! 0, j, i ! 2]) [0..<d]))"
  have 1: "tsub t1' t0' = Some ?dt"
    using t0 t1 by (simp add: tsub_same has_shape_def)
  have 2: "tmul ?phi ?dt = Some ?a"
    using phi by (simp add: tmul_same has_shape_def)
  have 3: "tadd Y0' ?a = Some ?b"
    using Y0 by (simp add: tadd_same has_shape_def)
  have 4: "tsub W1' W0' = Some ?dW"
    using W0 W1 by (simp add: tsub_same has_shape_def)
  have 5: "matmul ?sg (expand_dims_last ?dW) = Some ?c"
    using sg by (intro matmul_batch) (simp_all add: has_shape_def expand_dims_last_def)
  obtain d' where bs: "broadcast_shapes [m, d] (filter (\<lambda>x. x \<noteq> 1) [m, d, 1]) = Some [m, d']"
    using broadcast_squeezed [OF pos] by blast
  have "shape (squeeze ?c) = filter (\<lambda>x. x \<noteq> 1) [m, d, 1]"
    by (simp add: squeeze_def)
  then obtain e where 6: "tmul Z0' (squeeze ?c) = Some e" and e: "shape e = [m, d']"
    using bs Z0 by (simp add: tmul_def binop_def has_shape_def del: filter.simps)
  obtain r where 7: "reduce_sum_axis1 e = Some r" and r: "shape r = [m, 1]"
    using e by (simp add: reduce_sum_axis1_2)
  have 8: "tadd ?b r = Some (mk [m, 1] (\<lambda>i. el ?b i + el r i))"
    using r by (simp add: tadd_same)
  show ?thesis
    unfolding step_Y1_tilde_def using 1 2 3 4 5 6 7 8 by simp
qed



lemma contract_model:
  assumes c: "contract self" and i: "has_shape inp [self_M self, self_D self + 1]"
  shows "\<exists>u. model self p inp = Some u \<and> has_shape u [self_M self, 1]"
proof -
  from c have "\<forall>p inp. has_shape inp [self_M self, self_D self + 1]
         \<longrightarrow> (\<exists>u. model self p inp = Some u \<and> has_shape u [self_M self, 1])"
    unfolding contract_def Let_def by (elim conjE)
  then show ?thesis using i by (elim allE impE)
qed

lemma contract_gradient_u:
  assumes c: "contract self" and t: "has_shape t [self_M self, 1]"
    and X: "has_shape X [self_M self, self_D self]"
  shows "\<exists>G. gradient self (\<lambda>X'. concat1 t X' \<bind> model self p) X = Some G \<and>
             has_shape G [self_M self, self_D self]"
proof -
  from c have "\<forall>p t X. has_shape t [self_M self, 1] \<and> has_shape X [self_M self, self_D self]
         \<longrightarrow> (\<exists>G. gradient self (\<lambda>X'. concat1 t X' \<bind> model self p) X = Some G \<and>
                  has_shape G [self_M self, self_D self])"
    unfolding contract_def Let_def by (elim conjE)
  then have "has_shape t [self_M self, 1] \<and> has_shape X [self_M self, self_D self]
         \<longrightarrow> (\<exists>G. gradient self (\<lambda>X'. concat1 t X' \<bind> model self p) X = Some G \<and>
                  has_shape G [self_M self, self_D self])"
    by (elim allE)
  then show ?thesis using t X by (elim impE) (rule conjI)
qed

lemma contract_g:
  assumes c: "contract self" and X: "has_shape X [self_M self, self_D self]"
  shows "has_shape (g_tf self X) [self_M self, 1]"
    and "\<exists>G. Dg_tf self X = Some G \<and> has_shape G [self_M self, self_D self]"
proof -
  from c have "\<forall>X. has_shape X [self_M self, self_D self] \<longrightarrow> has_shape (g_tf self X) [self_M self, 1]"
    unfolding contract_def Let_def by (elim conjE)
  then show "has_shape (g_tf self X) [self_M self, 1]" using X by (elim allE impE)
  from c have "\<forall>X. has_shape X [self_M self, self_D self]
         \<longrightarrow> (\<exists>G. gradient self (\<lambda>X'. Some (g_tf self X')) X = Some G \<and> has_shape G [self_M self, self_D self])"
    unfolding contract_def Let_def by (elim conjE)
  then show "\<exists>G. Dg_tf self X = Some G \<and> has_shape G [self_M self, self_D self]"
    unfolding Dg_tf_def using X by (elim allE impE)
qed

lemma net_u_shape:
  assumes c: "contract self" and M: "m = self_M self" and D: "d = self_D self"
    and t: "has_shape t [m, 1]" and X: "has_shape X [m, d]"
  shows "\<exists>u Du. net_u self p t X = Some (u, Du) \<and> has_shape u [m, 1] \<and> has_shape Du [m, d]"
proof -
  have "\<exists>r. concat1 t X = Some r \<and> has_shape r [m, 1 + d]"
    using t X by (intro concat1_shape) (simp_all add: has_shape_def)
  then obtain inp where i: "concat1 t X = Some inp" and ish: "has_shape inp [m, 1 + d]"
    by (elim exE conjE)
  have "has_shape inp [self_M self, self_D self + 1]" using ish M D by simp
  from contract_model [OF c this, of p]
  obtain u where u: "model self p inp = Some u" and ush: "has_shape u [m, 1]"
    unfolding M by blast
  have "\<exists>G. gradient self (\<lambda>X'. concat1 t X' \<bind> model self p) X = Some G \<and>
             has_shape G [self_M self, self_D self]"
    using t X unfolding M D by (intro contract_gradient_u [OF c])
  then obtain G where G: "gradient self (\<lambda>X'. concat1 t X' \<bind> model self p) X = Some G"
    and Gsh: "has_shape G [m, d]"
    unfolding M D by (elim exE conjE)
  show ?thesis using i u G ush Gsh by (simp add: net_u_def)
qed

section \<open>The state after \<open>n\<close> steps\<close>

lemma for_loop_snoc:
  "for_loop body (ns @ [n]) l = (case for_loop body ns l of None \<Rightarrow> None | Some l' \<Rightarrow> body n l')"
  by (induction ns arbitrary: l) (auto split: option.splits)

lemma slice1_has_shape:
  assumes "has_shape a [m, n, d]" "k < n"
  shows "\<exists>r. slice1 a k = Some r \<and> has_shape r [m, d]"
  using assms by (simp add: slice1_3 has_shape_def)

lemma reduce_sum_square_tsub:
  assumes "shape a = s" "shape b = s" "tsub a b = Some c"
  shows "reduce_sum (square c) = sum_sq_diff a b"
proof -
  have "c = mk s (\<lambda>i. el a i - el b i)"
    using assms by (simp add: tsub_same)
  then show ?thesis using assms(1)
    by (simp add: reduce_sum_def square_def mk_def sum_sq_diff_def power2_eq_square comp_def)
qed

lemma bsde_state_shape:
  assumes c: "contract self" and M: "m = self_M self" and D: "d = self_D self"
    and t: "has_shape t [m, Suc N, 1]" and W: "has_shape W [m, Suc N, d]"
    and Xi: "has_shape Xi [1, d]" and n: "n \<le> N"
  shows "\<exists>X Y Z. bsde_state self p t W Xi n = Some (X, Y, Z) \<and>
           has_shape X [m, d] \<and> has_shape Y [m, 1] \<and> has_shape Z [m, d]"
  using n
proof (induction n)
  case 0
  obtain t0' where t0: "slice1 t 0 = Some t0'" "has_shape t0' [m, 1]"
    using slice1_has_shape [OF t, of 0] by auto
  have X0: "tile_rows Xi m = Some (mk [m, d] (\<lambda>i. el Xi [0, i ! 1]))"
    using Xi by (simp add: tile_rows_1 has_shape_def)
  obtain u Du where "net_u self p t0' (mk [m, d] (\<lambda>i. el Xi [0, i ! 1])) = Some (u, Du)"
    "has_shape u [m, 1]" "has_shape Du [m, d]"
    using net_u_shape [OF c M D t0(2), of "mk [m, d] (\<lambda>i. el Xi [0, i ! 1])" p] by auto
  then show ?case using t0 X0 M by simp
next
  case (Suc n)
  then obtain X Y Z where st: "bsde_state self p t W Xi n = Some (X, Y, Z)"
    and sh: "has_shape X [m, d]" "has_shape Y [m, 1]" "has_shape Z [m, d]"
    by auto
  obtain t0' where t0: "slice1 t n = Some t0'" "has_shape t0' [m, 1]"
    using slice1_has_shape [OF t, of n] Suc.prems by auto
  obtain t1' where t1: "slice1 t (Suc n) = Some t1'" "has_shape t1' [m, 1]"
    using slice1_has_shape [OF t, of "Suc n"] Suc.prems by auto
  obtain W0' where W0: "slice1 W n = Some W0'" "has_shape W0' [m, d]"
    using slice1_has_shape [OF W, of n] Suc.prems by auto
  obtain W1' where W1: "slice1 W (Suc n) = Some W1'" "has_shape W1' [m, d]"
    using slice1_has_shape [OF W, of "Suc n"] Suc.prems by auto
  obtain X1' where X1: "step_X1 self t0' t1' W0' W1' X Y Z = Some X1'" "has_shape X1' [m, d]"
    using step_X1_closed [OF c M D t0(2) t1(2) W0(2) W1(2) sh] by simp
  obtain u Du where "net_u self p t1' X1' = Some (u, Du)"
    "has_shape u [m, 1]" "has_shape Du [m, d]"
    using net_u_shape [OF c M D t1(2) X1(2), of p] by auto
  then show ?case using st t0 t1 W0 W1 X1 by simp
qed

lemma bsde_target_shape:
  assumes c: "contract self" and M: "m = self_M self" and D: "d = self_D self"
    and t: "has_shape t [m, Suc N, 1]" and W: "has_shape W [m, Suc N, d]"
    and Xi: "has_shape Xi [1, d]" and n: "n < N"
  shows "\<exists>Yt. bsde_target self p t W Xi n = Some Yt \<and> has_shape Yt [m, 1]"
proof -
  obtain X Y Z where st: "bsde_state self p t W Xi n = Some (X, Y, Z)"
    and sh: "has_shape X [m, d]" "has_shape Y [m, 1]" "has_shape Z [m, d]"
    using bsde_state_shape [OF c M D t W Xi, of n p] n by auto
  obtain t0' where t0: "slice1 t n = Some t0'" "has_shape t0' [m, 1]"
    using slice1_has_shape [OF t, of n] n by auto
  obtain t1' where t1: "slice1 t (Suc n) = Some t1'" "has_shape t1' [m, 1]"
    using slice1_has_shape [OF t, of "Suc n"] n by auto
  obtain W0' where W0: "slice1 W n = Some W0'" "has_shape W0' [m, d]"
    using slice1_has_shape [OF W, of n] n by auto
  obtain W1' where W1: "slice1 W (Suc n) = Some W1'" "has_shape W1' [m, d]"
    using slice1_has_shape [OF W, of "Suc n"] n by auto
  show ?thesis
    using step_Y1_tilde_shape [OF c M D t0(2) t1(2) W0(2) W1(2) sh] st t0 t1 W0 W1
    by (simp add: bsde_target_def)
qed

section \<open>The loop of the stepper\<close>

lemma loop_run:
  assumes c: "contract self" and M: "m = self_M self" and D: "d = self_D self"
    and t: "has_shape t [m, Suc N, 1]" and W: "has_shape W [m, Suc N, d]"
    and Xi: "has_shape Xi [1, d]" and n: "n \<le> N"
    and st0: "bsde_state self p t W Xi 0 = Some (x0, y0, z0)"
    and s0: "slice1 t 0 = Some ta" "slice1 W 0 = Some Wa"
  shows "\<exists>l Ls. for_loop (loop_body self p t W) [0..<n]
            \<lparr>loss = 0, X_list = [x0], Y_list = [y0], t0 = ta, W0 = Wa, X0 = x0, Y0 = y0, Z0 = z0,
             X1 = None, Y1 = None, Z1 = None\<rparr> = Some l
        \<and> bsde_state self p t W Xi n = Some (X0 l, Y0 l, Z0 l)
        \<and> slice1 t n = Some (t0 l) \<and> slice1 W n = Some (W0 l)
        \<and> map Some (X_list l) = map (\<lambda>k. map_option fst (bsde_state self p t W Xi k)) [0..<Suc n]
        \<and> map Some (Y_list l) = map (\<lambda>k. map_option (\<lambda>s. fst (snd s)) (bsde_state self p t W Xi k)) [0..<Suc n]
        \<and> loss l = sum_list Ls \<and> length Ls = n
        \<and> (\<forall>k<n. \<exists>Yt X' Y' Z'. bsde_target self p t W Xi k = Some Yt
                \<and> bsde_state self p t W Xi (Suc k) = Some (X', Y', Z')
                \<and> Ls ! k = sum_sq_diff Y' Yt)
        \<and> (0 < n \<longrightarrow> X1 l = Some (X0 l) \<and> Y1 l = Some (Y0 l) \<and> Z1 l = Some (Z0 l))"
  using n
proof (induction n)
  case 0
  show ?case using st0 s0 by simp
next
  case (Suc n)
  let ?init = "\<lparr>loss = 0, X_list = [x0], Y_list = [y0], t0 = ta, W0 = Wa, X0 = x0, Y0 = y0, Z0 = z0,
             X1 = None, Y1 = None, Z1 = None\<rparr>"
  have nle: "n \<le> N" using Suc.prems by simp
  from Suc.IH [OF nle] obtain l Ls where run: "for_loop (loop_body self p t W) [0..<n] ?init = Some l"
    and st: "bsde_state self p t W Xi n = Some (X0 l, Y0 l, Z0 l)"
    and sl: "slice1 t n = Some (t0 l)" "slice1 W n = Some (W0 l)"
    and xs: "map Some (X_list l) = map (\<lambda>k. map_option fst (bsde_state self p t W Xi k)) [0..<Suc n]"
    and ys: "map Some (Y_list l) = map (\<lambda>k. map_option (\<lambda>s. fst (snd s)) (bsde_state self p t W Xi k)) [0..<Suc n]"
    and ls: "loss l = sum_list Ls" "length Ls = n"
    and ks: "\<forall>k<n. \<exists>Yt X' Y' Z'. bsde_target self p t W Xi k = Some Yt
                \<and> bsde_state self p t W Xi (Suc k) = Some (X', Y', Z')
                \<and> Ls ! k = sum_sq_diff Y' Yt"
    by blast
  have nN: "n < N" using Suc.prems by simp
  obtain t1' where t1: "slice1 t (Suc n) = Some t1'"
    using slice1_has_shape [OF t, of "Suc n"] nN by auto
  obtain W1' where W1: "slice1 W (Suc n) = Some W1'"
    using slice1_has_shape [OF W, of "Suc n"] nN by auto
  obtain X' Y' Z' where st': "bsde_state self p t W Xi (Suc n) = Some (X', Y', Z')"
    and sh': "has_shape Y' [m, 1]"
    using bsde_state_shape [OF c M D t W Xi Suc.prems, of p] by auto
  from st' have "step_X1 self (t0 l) t1' (W0 l) W1' (X0 l) (Y0 l) (Z0 l) \<bind>
      (\<lambda>X1'. net_u self p t1' X1' \<bind> (\<lambda>(Y1', Z1'). Some (X1', Y1', Z1'))) = Some (X', Y', Z')"
    using st sl t1 W1 by simp
  then have sx: "step_X1 self (t0 l) t1' (W0 l) W1' (X0 l) (Y0 l) (Z0 l) = Some X'"
    and nu: "net_u self p t1' X' = Some (Y', Z')"
    by (auto simp: bind_eq_Some_conv)
  obtain Yt where yt: "bsde_target self p t W Xi n = Some Yt" and ysh: "has_shape Yt [m, 1]"
    using bsde_target_shape [OF c M D t W Xi nN, of p] by auto
  have sy: "step_Y1_tilde self (t0 l) t1' (W0 l) W1' (X0 l) (Y0 l) (Z0 l) = Some Yt"
    using yt st sl t1 W1 by (simp add: bsde_target_def)
  obtain dd where dd: "tsub Y' Yt = Some dd"
    using sh' ysh by (simp add: tsub_same has_shape_def)
  have sq: "reduce_sum (square dd) = sum_sq_diff Y' Yt"
    using sh' ysh dd by (intro reduce_sum_square_tsub [where s = "[m, 1]"]) (simp_all add: has_shape_def)
  let ?l' = "\<lparr>loss = loss l + sum_sq_diff Y' Yt,
           X_list = X_list l @ [X'], Y_list = Y_list l @ [Y'],
           t0 = t1', W0 = W1', X0 = X', Y0 = Y', Z0 = Z',
           X1 = Some X', Y1 = Some Y', Z1 = Some Z'\<rparr>"
  have body: "loop_body self p t W n l = Some ?l'"
    using t1 W1 sx sy nu dd sq by (simp add: loop_body_def)
  have run': "for_loop (loop_body self p t W) [0..<Suc n] ?init = Some ?l'"
    using run body by (simp add: for_loop_snoc)
  have k': "\<forall>k<Suc n. \<exists>Yt'' X'' Y'' Z''. bsde_target self p t W Xi k = Some Yt''
                \<and> bsde_state self p t W Xi (Suc k) = Some (X'', Y'', Z'')
                \<and> (Ls @ [sum_sq_diff Y' Yt]) ! k = sum_sq_diff Y'' Yt''"
  proof (intro allI impI)
    fix k assume "k < Suc n"
    then consider "k < n" | "k = n" by linarith
    then show "\<exists>Yt'' X'' Y'' Z''. bsde_target self p t W Xi k = Some Yt''
                \<and> bsde_state self p t W Xi (Suc k) = Some (X'', Y'', Z'')
                \<and> (Ls @ [sum_sq_diff Y' Yt]) ! k = sum_sq_diff Y'' Yt''"
    proof cases
      case 1
      then show ?thesis using ks ls(2) by (simp add: nth_append del: bsde_state.simps)
    next
      case 2
      then show ?thesis using yt st' ls(2) by (simp add: nth_append del: bsde_state.simps)
    qed
  qed
  have xs': "map Some (X_list ?l') = map (\<lambda>k. map_option fst (bsde_state self p t W Xi k)) [0..<Suc (Suc n)]"
    using xs st' by (simp del: bsde_state.simps)
  have ys': "map Some (Y_list ?l') = map (\<lambda>k. map_option (\<lambda>s. fst (snd s)) (bsde_state self p t W Xi k)) [0..<Suc (Suc n)]"
    using ys st' by (simp del: bsde_state.simps)
  show ?case
    apply (rule exI [where x = ?l'])
    apply (rule exI [where x = "Ls @ [sum_sq_diff Y' Yt]"])
    using run' st' t1 W1 xs' ys' ls k' by (simp del: bsde_state.simps upt_Suc)
qed

section \<open>What \<^verbatim>\<open>loss_function\<close> returns\<close>

lemma map_Some_eq_nth:
  assumes "map Some xs = map f [0..<n]" "k < n"
  shows "f k = Some (xs ! k)"
proof -
  have len: "length xs = n" using assms(1) by (metis length_map length_upt minus_nat.diff_0)
  have "map Some xs ! k = map f [0..<n] ! k" using assms(1) by simp
  then show ?thesis using assms(2) len by simp
qed

lemma loss_function_run:
  assumes c: "contract self" and M: "m = self_M self" and D: "d = self_D self"
    and N: "N = self_N self" and pos: "0 < N"
    and t: "has_shape t [m, Suc N, 1]" and W: "has_shape W [m, Suc N, d]"
    and Xi: "has_shape Xi [1, d]"
  shows "\<exists>X Y y0 XN YN ZN Dg Ls.
      loss_function self p t W Xi =
        Some (sum_list Ls + sum_sq_diff YN (g_tf self XN) + sum_sq_diff ZN Dg, X, Y, y0)
    \<and> has_shape X [m, Suc N, d] \<and> has_shape Y [m, Suc N, 1]
    \<and> y0 = mk [] (\<lambda>i. el Y [0, 0, 0])
    \<and> (\<forall>n\<le>N. \<exists>Xn Yn Zn. bsde_state self p t W Xi n = Some (Xn, Yn, Zn)
              \<and> slice1 X n = Some Xn \<and> slice1 Y n = Some Yn)
    \<and> bsde_state self p t W Xi N = Some (XN, YN, ZN)
    \<and> Dg_tf self XN = Some Dg
    \<and> length Ls = N
    \<and> (\<forall>k<N. \<exists>Yt X' Y' Z'. bsde_target self p t W Xi k = Some Yt
              \<and> bsde_state self p t W Xi (Suc k) = Some (X', Y', Z')
              \<and> Ls ! k = sum_sq_diff Y' Yt)"
proof -
  note bsde_state.simps [simp del]
  have mpos: "0 < m" using contract_pos [OF c] M by simp
  obtain x0 y0 z0 where st0: "bsde_state self p t W Xi 0 = Some (x0, y0, z0)"
    using bsde_state_shape [OF c M D t W Xi, of 0 p] by auto
  obtain ta where ta: "slice1 t 0 = Some ta"
    using slice1_has_shape [OF t, of 0] by auto
  obtain Wa where Wa: "slice1 W 0 = Some Wa"
    using slice1_has_shape [OF W, of 0] by auto
  from st0 have "tile_rows Xi (self_M self) \<bind>
      (\<lambda>X0'. net_u self p ta X0' \<bind> (\<lambda>(Y0', Z0'). Some (X0', Y0', Z0'))) = Some (x0, y0, z0)"
    using ta by (simp add: bsde_state.simps)
  then have tile: "tile_rows Xi (self_M self) = Some x0" and nu: "net_u self p ta x0 = Some (y0, z0)"
    by (auto simp: bind_eq_Some_conv)
  let ?init = "\<lparr>loss = 0, X_list = [x0], Y_list = [y0], t0 = ta, W0 = Wa, X0 = x0, Y0 = y0, Z0 = z0,
             X1 = None, Y1 = None, Z1 = None\<rparr>"
  from loop_run [OF c M D t W Xi le_refl st0 ta Wa]
  obtain l Ls where run: "for_loop (loop_body self p t W) [0..<N] ?init = Some l"
    and st: "bsde_state self p t W Xi N = Some (X0 l, Y0 l, Z0 l)"
    and xs: "map Some (X_list l) = map (\<lambda>k. map_option fst (bsde_state self p t W Xi k)) [0..<Suc N]"
    and ys: "map Some (Y_list l) = map (\<lambda>k. map_option (\<lambda>s. fst (snd s)) (bsde_state self p t W Xi k)) [0..<Suc N]"
    and ls: "loss l = sum_list Ls" "length Ls = N"
    and ks: "\<forall>k<N. \<exists>Yt X' Y' Z'. bsde_target self p t W Xi k = Some Yt
                \<and> bsde_state self p t W Xi (Suc k) = Some (X', Y', Z')
                \<and> Ls ! k = sum_sq_diff Y' Yt"
    and b: "0 < N \<longrightarrow> X1 l = Some (X0 l) \<and> Y1 l = Some (Y0 l) \<and> Z1 l = Some (Z0 l)"
    by blast
  have bound: "X1 l = Some (X0 l)" "Y1 l = Some (Y0 l)" "Z1 l = Some (Z0 l)"
    using b pos by simp_all
  have shN: "has_shape (X0 l) [m, d]" "has_shape (Y0 l) [m, 1]" "has_shape (Z0 l) [m, d]"
    using bsde_state_shape [OF c M D t W Xi le_refl, of p] st by auto
  have g: "has_shape (g_tf self (X0 l)) [m, 1]"
    using contract_g(1) [OF c, of "X0 l"] shN(1) M D by simp
  obtain Dg where Dg: "Dg_tf self (X0 l) = Some Dg" and Dgsh: "has_shape Dg [m, d]"
    using contract_g(2) [OF c, of "X0 l"] shN(1) M D by auto
  obtain dY where dY: "tsub (Y0 l) (g_tf self (X0 l)) = Some dY"
    using shN(2) g by (simp add: tsub_same has_shape_def)
  have sqY: "reduce_sum (square dY) = sum_sq_diff (Y0 l) (g_tf self (X0 l))"
    using shN(2) g dY by (intro reduce_sum_square_tsub [where s = "[m, 1]"]) (simp_all add: has_shape_def)
  obtain dZ where dZ: "tsub (Z0 l) Dg = Some dZ"
    using shN(3) Dgsh by (simp add: tsub_same has_shape_def)
  have sqZ: "reduce_sum (square dZ) = sum_sq_diff (Z0 l) Dg"
    using shN(3) Dgsh dZ by (intro reduce_sum_square_tsub [where s = "[m, d]"]) (simp_all add: has_shape_def)
  have lenX: "length (X_list l) = Suc N" and lenY: "length (Y_list l) = Suc N"
    using xs ys by (metis length_map length_upt minus_nat.diff_0)+
  have stk: "\<And>k. k \<le> N \<Longrightarrow> \<exists>Zk. bsde_state self p t W Xi k = Some (X_list l ! k, Y_list l ! k, Zk)
                \<and> has_shape (X_list l ! k) [m, d] \<and> has_shape (Y_list l ! k) [m, 1]"
  proof -
    fix k assume k: "k \<le> N"
    obtain Xk Yk Zk where sk: "bsde_state self p t W Xi k = Some (Xk, Yk, Zk)"
      and shk: "has_shape Xk [m, d]" "has_shape Yk [m, 1]"
      using bsde_state_shape [OF c M D t W Xi k, of p] by auto
    have "map_option fst (bsde_state self p t W Xi k) = Some (X_list l ! k)"
      using map_Some_eq_nth [OF xs, of k] k by simp
    moreover have "map_option (\<lambda>s. fst (snd s)) (bsde_state self p t W Xi k) = Some (Y_list l ! k)"
      using map_Some_eq_nth [OF ys, of k] k by simp
    ultimately show "\<exists>Zk. bsde_state self p t W Xi k = Some (X_list l ! k, Y_list l ! k, Zk)
                \<and> has_shape (X_list l ! k) [m, d] \<and> has_shape (Y_list l ! k) [m, 1]"
      using sk shk by simp
  qed
  have allX: "\<forall>x \<in> set (X_list l). has_shape x [m, d]"
    using stk lenX by (auto simp: in_set_conv_nth less_Suc_eq_le)
  have allY: "\<forall>y \<in> set (Y_list l). has_shape y [m, 1]"
    using stk lenY by (auto simp: in_set_conv_nth less_Suc_eq_le)
  let ?X = "mk [m, Suc N, d] (\<lambda>i. el (X_list l ! (i ! 1)) [i ! 0, i ! 2])"
  let ?Y = "mk [m, Suc N, 1] (\<lambda>i. el (Y_list l ! (i ! 1)) [i ! 0, i ! 2])"
  have neX: "X_list l \<noteq> []" and neY: "Y_list l \<noteq> []"
    using lenX lenY by auto
  have shX: "\<forall>x \<in> set (X_list l). shape x = [m, d]"
    using allX by (simp add: has_shape_def)
  have shY: "\<forall>y \<in> set (Y_list l). shape y = [m, 1]"
    using allY by (simp add: has_shape_def)
  have sX: "stack1 (X_list l) = Some ?X"
    using stack1_2 [OF neX shX] lenX by simp
  have sY: "stack1 (Y_list l) = Some ?Y"
    using stack1_2 [OF neY shY] lenY by simp
  have i0: "index000 ?Y = Some (mk [] (\<lambda>i. el ?Y [0, 0, 0]))"
    by (rule index000_3 [where m = m and n = "Suc N" and d = 1]) (simp_all add: mpos)
  have lf: "loss_function self p t W Xi =
      Some (sum_list Ls + sum_sq_diff (Y0 l) (g_tf self (X0 l)) + sum_sq_diff (Z0 l) Dg,
            ?X, ?Y, mk [] (\<lambda>i. el ?Y [0, 0, 0]))"
    unfolding loss_function_def
    using ta Wa tile nu run N bound dY Dg dZ sX sY i0 sqY sqZ ls(1) by simp
  have slices: "\<forall>n\<le>N. \<exists>Xn Yn Zn. bsde_state self p t W Xi n = Some (Xn, Yn, Zn)
              \<and> slice1 ?X n = Some Xn \<and> slice1 ?Y n = Some Yn"
  proof (intro allI impI)
    fix n assume n: "n \<le> N"
    obtain Zk where sk: "bsde_state self p t W Xi n = Some (X_list l ! n, Y_list l ! n, Zk)"
      using stk [OF n] by auto
    have "slice1 ?X n = Some (X_list l ! n)"
      using slice1_stack1 [OF allX _ sX, of n] n lenX by simp
    moreover have "slice1 ?Y n = Some (Y_list l ! n)"
      using slice1_stack1 [OF allY _ sY, of n] n lenY by simp
    ultimately show "\<exists>Xn Yn Zn. bsde_state self p t W Xi n = Some (Xn, Yn, Zn)
              \<and> slice1 ?X n = Some Xn \<and> slice1 ?Y n = Some Yn"
      using sk by simp
  qed
  show ?thesis
    using lf slices st Dg ls(2) ks by (intro exI conjI) simp_all
qed

lemma bsde_state_SucD:
  assumes "bsde_state self p t W Xi (Suc n) = Some (X', Y', Z')"
  shows "\<exists>X Y Z ta tb Wa Wb. bsde_state self p t W Xi n = Some (X, Y, Z)
      \<and> slice1 t n = Some ta \<and> slice1 t (Suc n) = Some tb
      \<and> slice1 W n = Some Wa \<and> slice1 W (Suc n) = Some Wb
      \<and> step_X1 self ta tb Wa Wb X Y Z = Some X'
      \<and> net_u self p tb X' = Some (Y', Z')"
  using assms by (auto simp: bind_eq_Some_conv)

lemma bsde_state_net_u:
  assumes "bsde_state self p t W Xi n = Some (X, Y, Z)" "slice1 t n = Some tn"
  shows "net_u self p tn X = Some (Y, Z)"
proof (cases n)
  case 0
  then show ?thesis using assms by (auto simp: bind_eq_Some_conv)
next
  case (Suc k)
  then show ?thesis using bsde_state_SucD [of self p t W Xi k X Y Z] assms by auto
qed

lemma el_slice1:
  assumes "has_shape a [m, n, d]" "slice1 a k = Some r" "k < n" "i < m" "j < d"
  shows "el r [i, j] = el a [i, k, j]"
proof -
  have "r = mk [m, d] (\<lambda>i. el a [i ! 0, k, i ! 1])"
    using assms(1,2,3) by (simp add: slice1_3 has_shape_def)
  then show ?thesis using assms(4,5) by (simp add: el_mk2)
qed

section \<open>The forward state follows the Euler--Maruyama rule\<close>

lemma contract_demo: "0 < m \<Longrightarrow> 0 < d \<Longrightarrow> contract (demo m n d)"
  unfolding contract_def Let_def
  by (auto simp: demo_def fd_gradient_def row_sums_def has_shape_def concat1_def Let_def)

text \<open>
  Claim C1.  On inputs of the shapes the source documents (\<open>t\<close> of shape \<open>M \<times> (N+1) \<times> 1\<close>,
  \<open>W\<close> of shape \<open>M \<times> (N+1) \<times> D\<close>, \<open>Xi\<close> of shape \<open>1 \<times> D\<close>, \<open>N \<ge> 1\<close>) and for a
  problem that meets the shape contract, \<^verbatim>\<open>loss_function\<close> returns, and the state
  trajectory \<open>X\<close> it returns satisfies the Euler--Maruyama rule at every step
  \<open>n = 0..N-1\<close>, trajectory \<open>i\<close> and coordinate \<open>j\<close>:
  \<open>X[i,n+1,j] = X[i,n,j] + mu[i,j] \<cdot> (t[i,n+1] - t[i,n]) + \<Sum>\<^sub>k sigma[i,j,k] \<cdot> (W[i,n+1,k] - W[i,n,k])\<close>,
  with \<open>mu\<close> and \<open>sigma\<close> evaluated at the time, state, value and gradient of step \<open>n\<close>.
  This holds for every batch size \<open>M \<ge> 1\<close> and dimension \<open>D \<ge> 1\<close>.
\<close>

theorem C1_forward_step:
  assumes c: "contract self" and M: "m = self_M self" and D: "d = self_D self"
    and N: "N = self_N self" and pos: "0 < N"
    and t: "has_shape t [m, Suc N, 1]" and W: "has_shape W [m, Suc N, d]"
    and Xi: "has_shape Xi [1, d]"
  shows "\<exists>L X Y y0. loss_function self p t W Xi = Some (L, X, Y, y0)
    \<and> has_shape X [m, Suc N, d]
    \<and> (\<forall>n<N. \<exists>tn Xn Yn Zn.
          slice1 t n = Some tn \<and> slice1 X n = Some Xn \<and> slice1 Y n = Some Yn
        \<and> net_u self p tn Xn = Some (Yn, Zn)
        \<and> (\<forall>i<m. \<forall>j<d.
              el X [i, Suc n, j] =
                el X [i, n, j]
                + el (mu_tf self tn Xn Yn Zn) [i, j] * (el t [i, Suc n, 0] - el t [i, n, 0])
                + sum_list (map (\<lambda>k. el (sigma_tf self tn Xn Yn) [i, j, k]
                                       * (el W [i, Suc n, k] - el W [i, n, k])) [0..<d])))"
proof -
  note bsde_state.simps [simp del]
  from loss_function_run [OF c M D N pos t W Xi, of p]
  obtain L X Y y0 where lf: "loss_function self p t W Xi = Some (L, X, Y, y0)"
    and shX: "has_shape X [m, Suc N, d]"
    and sl: "\<forall>n\<le>N. \<exists>Xn Yn Zn. bsde_state self p t W Xi n = Some (Xn, Yn, Zn)
              \<and> slice1 X n = Some Xn \<and> slice1 Y n = Some Yn"
    by blast
  have step: "\<exists>tn Xn Yn Zn.
          slice1 t n = Some tn \<and> slice1 X n = Some Xn \<and> slice1 Y n = Some Yn
        \<and> net_u self p tn Xn = Some (Yn, Zn)
        \<and> (\<forall>i<m. \<forall>j<d.
              el X [i, Suc n, j] =
                el X [i, n, j]
                + el (mu_tf self tn Xn Yn Zn) [i, j] * (el t [i, Suc n, 0] - el t [i, n, 0])
                + sum_list (map (\<lambda>k. el (sigma_tf self tn Xn Yn) [i, j, k]
                                       * (el W [i, Suc n, k] - el W [i, n, k])) [0..<d]))"
    if n: "n < N" for n
  proof -
    from sl n obtain X' Y' Z' where st': "bsde_state self p t W Xi (Suc n) = Some (X', Y', Z')"
      and sX': "slice1 X (Suc n) = Some X'"
      by (metis Suc_leI)
    from bsde_state_SucD [OF st']
    obtain Xn Yn Zn ta tb Wa Wb where st: "bsde_state self p t W Xi n = Some (Xn, Yn, Zn)"
      and ta: "slice1 t n = Some ta" and tb: "slice1 t (Suc n) = Some tb"
      and Wa: "slice1 W n = Some Wa" and Wb: "slice1 W (Suc n) = Some Wb"
      and sx: "step_X1 self ta tb Wa Wb Xn Yn Zn = Some X'"
      by blast
    from sl n st obtain sXn: "slice1 X n = Some Xn" and sYn: "slice1 Y n = Some Yn"
      by (metis less_imp_le option.inject prod.inject)
    have nu: "net_u self p ta Xn = Some (Yn, Zn)"
      using bsde_state_net_u [OF st ta] .
    have shn: "has_shape Xn [m, d]" "has_shape Yn [m, 1]" "has_shape Zn [m, d]"
      using bsde_state_shape [OF c M D t W Xi, of n p] n st by auto
    have sha: "has_shape ta [m, 1]" "has_shape tb [m, 1]" "has_shape Wa [m, d]" "has_shape Wb [m, d]"
      using slice1_has_shape [OF t, of n] slice1_has_shape [OF t, of "Suc n"]
        slice1_has_shape [OF W, of n] slice1_has_shape [OF W, of "Suc n"] n ta tb Wa Wb
      by auto
    have cf: "X' = mk [m, d] (\<lambda>i. el Xn i + el (mu_tf self ta Xn Yn Zn) i * (el tb [i ! 0, 0] - el ta [i ! 0, 0])
        + sum_list (map (\<lambda>j. el (sigma_tf self ta Xn Yn) [i ! 0, i ! 1, j]
                              * (el Wb [i ! 0, j] - el Wa [i ! 0, j])) [0..<d]))"
      using step_X1_closed [OF c M D sha(1,2,3,4) shn] sx by simp
    have el: "el X [i, Suc n, j] =
                el X [i, n, j]
                + el (mu_tf self ta Xn Yn Zn) [i, j] * (el t [i, Suc n, 0] - el t [i, n, 0])
                + sum_list (map (\<lambda>k. el (sigma_tf self ta Xn Yn) [i, j, k]
                                       * (el W [i, Suc n, k] - el W [i, n, k])) [0..<d])"
      if i: "i < m" and j: "j < d" for i j
    proof -
      have 1: "el X [i, Suc n, j] = el X' [i, j]"
        using el_slice1 [OF shX sX' _ i j] n by simp
      have 2: "el X [i, n, j] = el Xn [i, j]"
        using el_slice1 [OF shX sXn _ i j] n by simp
      have 3: "el tb [i, 0] = el t [i, Suc n, 0]" "el ta [i, 0] = el t [i, n, 0]"
        using el_slice1 [OF t tb _ i, of 0] el_slice1 [OF t ta _ i, of 0] n by simp_all
      have 4: "sum_list (map (\<lambda>k. el (sigma_tf self ta Xn Yn) [i, j, k] * (el Wb [i, k] - el Wa [i, k])) [0..<d])
             = sum_list (map (\<lambda>k. el (sigma_tf self ta Xn Yn) [i, j, k] * (el W [i, Suc n, k] - el W [i, n, k])) [0..<d])"
      proof (rule sum_list_upt_cong)
        fix k assume k: "k < d"
        show "el (sigma_tf self ta Xn Yn) [i, j, k] * (el Wb [i, k] - el Wa [i, k])
            = el (sigma_tf self ta Xn Yn) [i, j, k] * (el W [i, Suc n, k] - el W [i, n, k])"
          using el_slice1 [OF W Wb _ i k] el_slice1 [OF W Wa _ i k] n by simp
      qed
      have "el X' [i, j] = el Xn [i, j] + el (mu_tf self ta Xn Yn Zn) [i, j] * (el tb [i, 0] - el ta [i, 0])
        + sum_list (map (\<lambda>k. el (sigma_tf self ta Xn Yn) [i, j, k] * (el Wb [i, k] - el Wa [i, k])) [0..<d])"
        unfolding cf using i j by (simp add: el_mk2)
      then show ?thesis using 1 2 3 4 by simp
    qed
    show ?thesis
      using ta sXn sYn nu el by blast
  qed
  show ?thesis
    using lf shX step by blast
qed

theorem C1_forward_step_witness:
  "contract (demo 2 1 1) \<and> (0::nat) < 1
   \<and> has_shape (demo_t 1) [2, Suc 1, 1] \<and> has_shape (demo_W 1) [2, Suc 1, 1]
   \<and> has_shape (self_Xi (demo 2 1 1)) [1, 1]
   \<and> (\<exists>L X Y y0. loss_function (demo 2 1 1) 1 (demo_t 1) (demo_W 1) (self_Xi (demo 2 1 1)) = Some (L, X, Y, y0)
    \<and> has_shape X [2, Suc 1, 1]
    \<and> (\<forall>n<1. \<exists>tn Xn Yn Zn.
          slice1 (demo_t 1) n = Some tn \<and> slice1 X n = Some Xn \<and> slice1 Y n = Some Yn
        \<and> net_u (demo 2 1 1) 1 tn Xn = Some (Yn, Zn)
        \<and> (\<forall>i<2. \<forall>j<1.
              el X [i, Suc n, j] =
                el X [i, n, j]
                + el (mu_tf (demo 2 1 1) tn Xn Yn Zn) [i, j] * (el (demo_t 1) [i, Suc n, 0] - el (demo_t 1) [i, n, 0])
                + sum_list (map (\<lambda>k. el (sigma_tf (demo 2 1 1) tn Xn Yn) [i, j, k]
                                       * (el (demo_W 1) [i, Suc n, k] - el (demo_W 1) [i, n, k])) [0..<1]))))"
proof -
  have c: "contract (demo 2 1 1)" by (simp add: contract_demo)
  have M: "2 = self_M (demo 2 1 1)" and D: "1 = self_D (demo 2 1 1)" and N: "1 = self_N (demo 2 1 1)"
    by (simp_all add: demo_def)
  have pos: "(0::nat) < 1" by simp
  have t: "has_shape (demo_t 1) [2, Suc 1, 1]" by (simp add: demo_t_def)
  have W: "has_shape (demo_W 1) [2, Suc 1, 1]" by (simp add: demo_W_def)
  have Xi: "has_shape (self_Xi (demo 2 1 1)) [1, 1]" by (simp add: demo_def)
  show ?thesis
    using c pos t W Xi C1_forward_step [OF c M D N pos t W Xi, of 1]
    by (intro conjI)
qed

section \<open>The loss is a plain sum\<close>

lemma bsde_targetD:
  assumes "bsde_target self p t W Xi n = Some Yt"
  shows "\<exists>X Y Z ta tb Wa Wb. bsde_state self p t W Xi n = Some (X, Y, Z)
      \<and> slice1 t n = Some ta \<and> slice1 t (Suc n) = Some tb
      \<and> slice1 W n = Some Wa \<and> slice1 W (Suc n) = Some Wb
      \<and> step_Y1_tilde self ta tb Wa Wb X Y Z = Some Yt"
  using assms unfolding bsde_target_def by (auto simp: bind_eq_Some_conv simp del: bsde_state.simps)

text \<open>
  Claim C3.  On inputs of the documented shapes, with \<open>N \<ge> 1\<close> and a problem that meets the
  shape contract, the loss that \<^verbatim>\<open>loss_function\<close> returns is
  \<open>\<Sum>\<^sub>n sum((Y\<^sub>n\<^sub>+\<^sub>1 - Y1_tilde\<^sub>n)\<^sup>2) + sum((Y\<^sub>N - g(X\<^sub>N))\<^sup>2) + sum((Z\<^sub>N - Dg(X\<^sub>N))\<^sup>2)\<close>:
  the targets \<open>Y1_tilde\<^sub>n\<close> are those of source line 79 at step \<open>n\<close>, \<open>X\<^sub>n\<close> and \<open>Y\<^sub>n\<close> are
  the rows of the returned trajectories, \<open>Z\<^sub>N\<close> is the network gradient at the terminal state,
  \<open>Dg\<close> is the tape gradient of \<^verbatim>\<open>g_tf\<close> at the terminal state, and every \<open>sum\<close> is the
  plain sum over all entries (\<^const>\<open>sum_sq_diff\<close>), not a mean.
\<close>

theorem C3_loss_is_plain_sum:
  assumes c: "contract self" and M: "m = self_M self" and D: "d = self_D self"
    and N: "N = self_N self" and pos: "0 < N"
    and t: "has_shape t [m, Suc N, 1]" and W: "has_shape W [m, Suc N, d]"
    and Xi: "has_shape Xi [1, d]"
  shows "\<exists>L X Y y0 Ls tN XN YN ZN Dg.
      loss_function self p t W Xi = Some (L, X, Y, y0)
    \<and> length Ls = N
    \<and> (\<forall>n<N. \<exists>tn tn1 Wn Wn1 Xn Yn Zn Yn1 Yt.
          slice1 t n = Some tn \<and> slice1 t (Suc n) = Some tn1
        \<and> slice1 W n = Some Wn \<and> slice1 W (Suc n) = Some Wn1
        \<and> slice1 X n = Some Xn \<and> slice1 Y n = Some Yn \<and> slice1 Y (Suc n) = Some Yn1
        \<and> net_u self p tn Xn = Some (Yn, Zn)
        \<and> step_Y1_tilde self tn tn1 Wn Wn1 Xn Yn Zn = Some Yt
        \<and> Ls ! n = sum_sq_diff Yn1 Yt)
    \<and> slice1 t N = Some tN \<and> slice1 X N = Some XN \<and> slice1 Y N = Some YN
    \<and> net_u self p tN XN = Some (YN, ZN)
    \<and> gradient self (\<lambda>X'. Some (g_tf self X')) XN = Some Dg
    \<and> L = sum_list Ls + sum_sq_diff YN (g_tf self XN) + sum_sq_diff ZN Dg"
proof -
  note bsde_state.simps [simp del]
  from loss_function_run [OF c M D N pos t W Xi, of p]
  obtain X Y y0 XN YN ZN Dg Ls where
    lf: "loss_function self p t W Xi =
        Some (sum_list Ls + sum_sq_diff YN (g_tf self XN) + sum_sq_diff ZN Dg, X, Y, y0)"
    and sl: "\<forall>n\<le>N. \<exists>Xn Yn Zn. bsde_state self p t W Xi n = Some (Xn, Yn, Zn)
              \<and> slice1 X n = Some Xn \<and> slice1 Y n = Some Yn"
    and stN: "bsde_state self p t W Xi N = Some (XN, YN, ZN)"
    and Dg: "Dg_tf self XN = Some Dg"
    and len: "length Ls = N"
    and ks: "\<forall>k<N. \<exists>Yt X' Y' Z'. bsde_target self p t W Xi k = Some Yt
              \<and> bsde_state self p t W Xi (Suc k) = Some (X', Y', Z')
              \<and> Ls ! k = sum_sq_diff Y' Yt"
    by blast
  obtain tN where tN: "slice1 t N = Some tN"
    using slice1_has_shape [OF t, of N] by auto
  have nuN: "net_u self p tN XN = Some (YN, ZN)"
    using bsde_state_net_u [OF stN tN] .
  from sl stN have slN: "slice1 X N = Some XN" "slice1 Y N = Some YN"
    by (metis le_refl option.inject prod.inject)+
  have step: "\<exists>tn tn1 Wn Wn1 Xn Yn Zn Yn1 Yt.
          slice1 t n = Some tn \<and> slice1 t (Suc n) = Some tn1
        \<and> slice1 W n = Some Wn \<and> slice1 W (Suc n) = Some Wn1
        \<and> slice1 X n = Some Xn \<and> slice1 Y n = Some Yn \<and> slice1 Y (Suc n) = Some Yn1
        \<and> net_u self p tn Xn = Some (Yn, Zn)
        \<and> step_Y1_tilde self tn tn1 Wn Wn1 Xn Yn Zn = Some Yt
        \<and> Ls ! n = sum_sq_diff Yn1 Yt"
    if n: "n < N" for n
  proof -
    from ks n obtain Yt X' Y' Z' where yt: "bsde_target self p t W Xi n = Some Yt"
      and st': "bsde_state self p t W Xi (Suc n) = Some (X', Y', Z')"
      and l: "Ls ! n = sum_sq_diff Y' Yt"
      by blast
    from bsde_targetD [OF yt]
    obtain Xn Yn Zn ta tb Wa Wb where st: "bsde_state self p t W Xi n = Some (Xn, Yn, Zn)"
      and ta: "slice1 t n = Some ta" and tb: "slice1 t (Suc n) = Some tb"
      and Wa: "slice1 W n = Some Wa" and Wb: "slice1 W (Suc n) = Some Wb"
      and sy: "step_Y1_tilde self ta tb Wa Wb Xn Yn Zn = Some Yt"
      by blast
    from sl n st have s1: "slice1 X n = Some Xn" "slice1 Y n = Some Yn"
      by (metis less_imp_le option.inject prod.inject)+
    from sl n st' have s2: "slice1 Y (Suc n) = Some Y'"
      by (metis Suc_leI option.inject prod.inject)
    have nu: "net_u self p ta Xn = Some (Yn, Zn)"
      using bsde_state_net_u [OF st ta] .
    show ?thesis
      using ta tb Wa Wb s1 s2 nu sy l by blast
  qed
  have g: "gradient self (\<lambda>X'. Some (g_tf self X')) XN = Some Dg"
    using Dg by (simp add: Dg_tf_def)
  show ?thesis
    using lf len step tN slN nuN g by blast
qed

theorem C3_loss_is_plain_sum_witness:
  "contract (demo 2 1 1) \<and> (0::nat) < 1
   \<and> has_shape (demo_t 1) [2, Suc 1, 1] \<and> has_shape (demo_W 1) [2, Suc 1, 1]
   \<and> has_shape (self_Xi (demo 2 1 1)) [1, 1]
   \<and> (\<exists>L X Y y0 Ls tN XN YN ZN Dg.
      loss_function (demo 2 1 1) 1 (demo_t 1) (demo_W 1) (self_Xi (demo 2 1 1)) = Some (L, X, Y, y0)
    \<and> length Ls = 1
    \<and> (\<forall>n<1. \<exists>tn tn1 Wn Wn1 Xn Yn Zn Yn1 Yt.
          slice1 (demo_t 1) n = Some tn \<and> slice1 (demo_t 1) (Suc n) = Some tn1
        \<and> slice1 (demo_W 1) n = Some Wn \<and> slice1 (demo_W 1) (Suc n) = Some Wn1
        \<and> slice1 X n = Some Xn \<and> slice1 Y n = Some Yn \<and> slice1 Y (Suc n) = Some Yn1
        \<and> net_u (demo 2 1 1) 1 tn Xn = Some (Yn, Zn)
        \<and> step_Y1_tilde (demo 2 1 1) tn tn1 Wn Wn1 Xn Yn Zn = Some Yt
        \<and> Ls ! n = sum_sq_diff Yn1 Yt)
    \<and> slice1 (demo_t 1) 1 = Some tN \<and> slice1 X 1 = Some XN \<and> slice1 Y 1 = Some YN
    \<and> net_u (demo 2 1 1) 1 tN XN = Some (YN, ZN)
    \<and> gradient (demo 2 1 1) (\<lambda>X'. Some (g_tf (demo 2 1 1) X')) XN = Some Dg
    \<and> L = sum_list Ls + sum_sq_diff YN (g_tf (demo 2 1 1) XN) + sum_sq_diff ZN Dg)"
proof -
  have c: "contract (demo 2 1 1)" by (simp add: contract_demo)
  have M: "2 = self_M (demo 2 1 1)" and D: "1 = self_D (demo 2 1 1)" and N: "1 = self_N (demo 2 1 1)"
    by (simp_all add: demo_def)
  have pos: "(0::nat) < 1" by simp
  have t: "has_shape (demo_t 1) [2, Suc 1, 1]" by (simp add: demo_t_def)
  have W: "has_shape (demo_W 1) [2, Suc 1, 1]" by (simp add: demo_W_def)
  have Xi: "has_shape (self_Xi (demo 2 1 1)) [1, 1]" by (simp add: demo_def)
  show ?thesis
    using c pos t W Xi C3_loss_is_plain_sum [OF c M D N pos t W Xi, of 1]
    by (intro conjI)
qed

section \<open>The backward target at dimension 1\<close>

text \<open>
  Claim C2.  The claim includes \<open>D = 1\<close>, and there the code departs from it as soon as
  \<open>M \<ge> 2\<close>: \<^verbatim>\<open>tf.squeeze\<close> without an axis turns the \<open>M \<times> 1 \<times> 1\<close> product into a vector of
  length \<open>M\<close>, which broadcasts against the \<open>M \<times> 1\<close> gradient to an \<open>M \<times> M\<close> matrix, so each
  trajectory receives the sum over all trajectories.  In the first step of the instance
  with \<open>M = 2\<close>, \<open>D = 1\<close> below, the code computes the target \<open>(5, 5)\<close> where the formula of
  the claim gives \<open>(3, 4)\<close>.
\<close>

theorem C2_target_mixes_trajectories_when_D1:
  "slice1 (demo_t 1) 0 = Some \<lparr>shape = [2, 1], data = [0, 0]\<rparr>
   \<and> slice1 (demo_t 1) 1 = Some \<lparr>shape = [2, 1], data = [1, 1]\<rparr>
   \<and> slice1 (demo_W 1) 0 = Some \<lparr>shape = [2, 1], data = [0, 0]\<rparr>
   \<and> slice1 (demo_W 1) 1 = Some \<lparr>shape = [2, 1], data = [1, 2]\<rparr>
   \<and> bsde_state (demo 2 1 1) 1 (demo_t 1) (demo_W 1) (self_Xi (demo 2 1 1)) 0
       = Some (\<lparr>shape = [2, 1], data = [1, 1]\<rparr>, \<lparr>shape = [2, 1], data = [1, 1]\<rparr>,
               \<lparr>shape = [2, 1], data = [1, 1]\<rparr>)
   \<and> step_Y1_tilde (demo 2 1 1)
         \<lparr>shape = [2, 1], data = [0, 0]\<rparr> \<lparr>shape = [2, 1], data = [1, 1]\<rparr>
         \<lparr>shape = [2, 1], data = [0, 0]\<rparr> \<lparr>shape = [2, 1], data = [1, 2]\<rparr>
         \<lparr>shape = [2, 1], data = [1, 1]\<rparr> \<lparr>shape = [2, 1], data = [1, 1]\<rparr>
         \<lparr>shape = [2, 1], data = [1, 1]\<rparr>
       = Some \<lparr>shape = [2, 1], data = [5, 5]\<rparr>
   \<and> Y1_tilde_spec (demo 2 1 1)
         \<lparr>shape = [2, 1], data = [0, 0]\<rparr> \<lparr>shape = [2, 1], data = [1, 1]\<rparr>
         \<lparr>shape = [2, 1], data = [0, 0]\<rparr> \<lparr>shape = [2, 1], data = [1, 2]\<rparr>
         \<lparr>shape = [2, 1], data = [1, 1]\<rparr> \<lparr>shape = [2, 1], data = [1, 1]\<rparr>
         \<lparr>shape = [2, 1], data = [1, 1]\<rparr>
       = \<lparr>shape = [2, 1], data = [3, 4]\<rparr>"
  by code_simp

section \<open>The path simulator\<close>

lemma bzip_ones: "bzip (replicate (length s) 1) s = Some s"
proof (induction s)
  case Nil
  then show ?case by simp
next
  case (Cons a s)
  have "bdim 1 a = Some a" by (simp add: bdim_def)
  then show ?case using Cons by (simp del: One_nat_def)
qed

lemma broadcast_shapes_scalar: "broadcast_shapes [] s = Some s"
  by (simp add: broadcast_shapes_def pad_def bzip_ones del: One_nat_def)

lemma el_scalar: "el (scalar x) [] = x"
  by (simp add: scalar_def el_mk)

lemma bproj_Nil: "bproj [] i = []"
  by (simp add: bproj_def)

lemma assign_from1_zeros:
  assumes "broadcast_shapes (shape v) [m, n, d] = Some [m, n, d]"
  shows "assign_from1 (zeros [m, Suc n, d]) v =
    Some (mk [m, Suc n, d] (\<lambda>i. if i ! 1 = 0 then 0 else el v (bproj (shape v) [i ! 0, i ! 1 - 1, i ! 2])))"
proof -
  have "mk [m, Suc n, d] (\<lambda>i. if i ! 1 = 0 then el (zeros [m, Suc n, d]) i
                               else el v (bproj (shape v) [i ! 0, i ! 1 - 1, i ! 2]))
      = mk [m, Suc n, d] (\<lambda>i. if i ! 1 = 0 then 0 else el v (bproj (shape v) [i ! 0, i ! 1 - 1, i ! 2]))"
    by (rule mk_cong3) (simp add: el_zeros)
  then show ?thesis using assms by (simp add: assign_from1_def)
qed

lemma cumsum1_3:
  assumes "shape a = [m, n, d]"
  shows "cumsum1 a = Some (mk [m, n, d] (\<lambda>i. running_sum (\<lambda>k. el a [i ! 0, k, i ! 2]) (i ! 1)))"
proof -
  have "mk [m, n, d] (\<lambda>i. running_sum (\<lambda>k. el a (i[1 := k])) (i ! 1))
      = mk [m, n, d] (\<lambda>i. running_sum (\<lambda>k. el a [i ! 0, k, i ! 2]) (i ! 1))"
    by (rule mk_cong3) simp
  then show ?thesis using assms by (simp add: cumsum1_def)
qed

lemma running_sum_cong:
  assumes "\<And>k. k \<le> n \<Longrightarrow> f k = g k"
  shows "running_sum f n = running_sum g n"
  using assms by (induction n) simp_all

lemma fetch_minibatch_run:
  assumes N: "0 < self_N self"
  shows "\<exists>t W. fetch_minibatch self nrm = Some (t, W)
     \<and> has_shape t [self_M self, Suc (self_N self), 1]
     \<and> has_shape W [self_M self, Suc (self_N self), self_D self]
     \<and> (\<forall>a<self_M self. \<forall>n\<le>self_N self.
          el t [a, n, 0] = running_sum (\<lambda>k. if k = 0 then 0 else fl64 (self_T self / real (self_N self))) n)
     \<and> (\<forall>a<self_M self. \<forall>j<self_D self. el W [a, 0, j] = 0)
     \<and> (\<forall>a<self_M self. \<forall>n\<le>self_N self. \<forall>j<self_D self.
          el W [a, n, j] = running_sum (\<lambda>k. if k = 0 then 0
             else fl64 (fl64 (sqrt (fl64 (self_T self / real (self_N self)))) * nrm [a, k - 1, j])) n)"
proof -
  let ?M = "self_M self" and ?N = "self_N self" and ?D = "self_D self"
  let ?dt = "fl64 (self_T self / real ?N)"
  let ?Dt = "mk [?M, Suc ?N, 1] (\<lambda>i. if i ! 1 = 0 then 0
               else el (scalar ?dt) (bproj (shape (scalar ?dt)) [i ! 0, i ! 1 - 1, i ! 2]))"
  let ?r = "mk [?M, ?N, ?D] (\<lambda>i. el (scalar (fl64 (sqrt ?dt))) (bproj [] i) * el (mk [?M, ?N, ?D] nrm) (bproj [?M, ?N, ?D] i))"
  let ?DW = "mk [?M, Suc ?N, ?D] (\<lambda>i. if i ! 1 = 0 then 0
               else el (rounded ?r) (bproj (shape (rounded ?r)) [i ! 0, i ! 1 - 1, i ! 2]))"
  let ?t = "mk [?M, Suc ?N, 1] (\<lambda>i. running_sum (\<lambda>k. el ?Dt [i ! 0, k, i ! 2]) (i ! 1))"
  let ?W = "mk [?M, Suc ?N, ?D] (\<lambda>i. running_sum (\<lambda>k. el ?DW [i ! 0, k, i ! 2]) (i ! 1))"
  have 1: "assign_from1 (zeros [?M, ?N + 1, 1]) (scalar ?dt) = Some ?Dt"
    using assign_from1_zeros [of "scalar ?dt" ?M ?N 1]
    by (simp add: scalar_def broadcast_shapes_scalar)
  have 2: "tmul (scalar (fl64 (sqrt ?dt))) (mk [?M, ?N, ?D] nrm) = Some ?r"
    by (simp add: tmul_def binop_def scalar_def broadcast_shapes_scalar)
  have shr: "shape (rounded ?r) = [?M, ?N, ?D]"
    by (simp add: rounded_def)
  have 3: "assign_from1 (zeros [?M, ?N + 1, ?D]) (rounded ?r) = Some ?DW"
    using assign_from1_zeros [of "rounded ?r" ?M ?N ?D] shr by simp
  have 4: "cumsum1 ?Dt = Some ?t"
    by (rule cumsum1_3) simp
  have 5: "cumsum1 ?DW = Some ?W"
    by (rule cumsum1_3) simp
  have f: "fetch_minibatch self nrm = Some (?t, ?W)"
    using N 1 2 3 4 5 by (simp add: fetch_minibatch_def Let_def)
  have time: "el ?t [a, n, 0] = running_sum (\<lambda>k. if k = 0 then 0 else ?dt) n"
    if a: "a < ?M" and n: "n \<le> ?N" for a n
  proof -
    have "el ?t [a, n, 0] = running_sum (\<lambda>k. el ?Dt [a, k, 0]) n"
      using a n by (simp add: el_mk3)
    also have "\<dots> = running_sum (\<lambda>k. if k = 0 then 0 else ?dt) n"
    proof (rule running_sum_cong)
      fix k assume "k \<le> n"
      then have "k < Suc ?N" using n by simp
      then show "el ?Dt [a, k, 0] = (if k = 0 then 0 else ?dt)"
        using a by (simp add: el_mk3 scalar_def bproj_Nil el_mk)
    qed
    finally show ?thesis .
  qed
  have zero: "el ?W [a, 0, j] = 0" if a: "a < ?M" and j: "j < ?D" for a j
    using a j by (simp add: el_mk3)
  have noise: "el ?W [a, n, j]
      = running_sum (\<lambda>k. if k = 0 then 0 else fl64 (fl64 (sqrt ?dt) * nrm [a, k - 1, j])) n"
    if a: "a < ?M" and n: "n \<le> ?N" and j: "j < ?D" for a n j
  proof -
    have "el ?W [a, n, j] = running_sum (\<lambda>k. el ?DW [a, k, j]) n"
      using a n j by (simp add: el_mk3)
    also have "\<dots> = running_sum (\<lambda>k. if k = 0 then 0 else fl64 (fl64 (sqrt ?dt) * nrm [a, k - 1, j])) n"
    proof (rule running_sum_cong)
      fix k assume "k \<le> n"
      then have k: "k < Suc ?N" using n by simp
      show "el ?DW [a, k, j] = (if k = 0 then 0 else fl64 (fl64 (sqrt ?dt) * nrm [a, k - 1, j]))"
      proof (cases "k = 0")
        case True
        then show ?thesis using a j by (simp add: el_mk3)
      next
        case False
        then have k1: "k - 1 < ?N" using k by simp
        have "el ?DW [a, k, j] = el (rounded ?r) [a, k - 1, j]"
          using a k j False k1 by (simp add: el_mk3 rounded_def bproj_same)
        also have "\<dots> = fl64 (el ?r [a, k - 1, j])"
          using a k1 j by (simp add: rounded_def el_mk3)
        also have "el ?r [a, k - 1, j] = fl64 (sqrt ?dt) * nrm [a, k - 1, j]"
          using a k1 j by (simp add: el_mk3 scalar_def bproj_Nil el_mk bproj_same)
        finally show ?thesis using False by simp
      qed
    qed
    finally show ?thesis .
  qed
  have sh: "has_shape ?t [?M, Suc ?N, 1]" "has_shape ?W [?M, Suc ?N, ?D]"
    by simp_all
  have "fetch_minibatch self nrm = Some (?t, ?W)
     \<and> has_shape ?t [?M, Suc ?N, 1]
     \<and> has_shape ?W [?M, Suc ?N, ?D]
     \<and> (\<forall>a<?M. \<forall>n\<le>?N. el ?t [a, n, 0] = running_sum (\<lambda>k. if k = 0 then 0 else ?dt) n)
     \<and> (\<forall>a<?M. \<forall>j<?D. el ?W [a, 0, j] = 0)
     \<and> (\<forall>a<?M. \<forall>n\<le>?N. \<forall>j<?D. el ?W [a, n, j]
          = running_sum (\<lambda>k. if k = 0 then 0 else fl64 (fl64 (sqrt ?dt) * nrm [a, k - 1, j])) n)"
    using f sh time zero noise by blast
  then show ?thesis by blast
qed

subsection \<open>Evaluating the binary64 rounding\<close>

lemma exp_down_numeral:
  "exp_down (numeral k) e x = (if pow2 e \<le> x then e else exp_down (pred_numeral k) (e - 1) x)"
  by (simp add: numeral_eq_Suc)

lemma exp_up_numeral:
  "exp_up (numeral k) e x = (if pow2 (e + 1) \<le> x then exp_up (pred_numeral k) (e + 1) x else e)"
  by (simp add: numeral_eq_Suc)

lemma running_sum_numeral:
  "running_sum f (numeral k) = fl64 (running_sum f (pred_numeral k) + f (numeral k))"
  by (simp add: numeral_eq_Suc)

lemmas fl64_eval =
  fl64_def exponent_def exp_down_numeral exp_up_numeral pow2_def round_even_def Let_def

lemma fl64_0: "fl64 0 = 0"
  by (simp add: fl64_def round_even_def)

lemma fl64_1: "fl64 1 = 1"
  by (simp add: fl64_eval)

lemma fl64_2: "fl64 2 = 2"
  by (simp add: fl64_eval)

lemma running_sum_exact:
  assumes rep: "\<forall>k\<le>N. fl64 (real k * T / real N) = real k * T / real N"
    and N: "0 < N" and n: "n \<le> N"
  shows "running_sum (\<lambda>k. if k = 0 then 0 else fl64 (T / real N)) n = real n * T / real N"
  using n
proof (induction n)
  case 0
  then show ?case by simp
next
  case (Suc n)
  have "fl64 (real 1 * T / real N) = real 1 * T / real N"
    using rep N by (simp del: of_nat_1 of_nat_Suc)
  then have dt: "fl64 (T / real N) = T / real N" by simp
  have "running_sum (\<lambda>k. if k = 0 then 0 else fl64 (T / real N)) (Suc n)
      = fl64 (real n * T / real N + T / real N)"
    using Suc dt by simp
  also have "real n * T / real N + T / real N = real (Suc n) * T / real N"
    by (simp add: add_divide_distrib algebra_simps)
  also have "fl64 (real (Suc n) * T / real N) = real (Suc n) * T / real N"
    using rep Suc.prems by blast
  finally show ?case .
qed

text \<open>
  Claim C4, as stated, fails in its last part.  The time array is a running binary64
  sum of the rounded step \<^verbatim>\<open>T/N\<close>, which is not the product \<open>n \<cdot> T / N\<close>.  With \<open>T = 1\<close>
  and \<open>N = 10\<close> the last time entry is \<open>1 - 2\<^sup>-\<^sup>5\<^sup>3\<close>, printed
  \<^verbatim>\<open>0.9999999999999999\<close>, and not \<open>10 \<cdot> T / N = 1\<close>; it differs as well from the binary64
  values of \<^verbatim>\<open>10*T/N\<close> and of \<^verbatim>\<open>10*(T/N)\<close>, which are both 1.
\<close>

theorem C4_last_time_is_not_T:
  "self_T ((demo 1 10 1)\<lparr>self_T := 1\<rparr>) = 1
   \<and> self_N ((demo 1 10 1)\<lparr>self_T := 1\<rparr>) = 10
   \<and> fetch_minibatch ((demo 1 10 1)\<lparr>self_T := 1\<rparr>) (draw demo_world 0) \<noteq> None
   \<and> el (fst (the (fetch_minibatch ((demo 1 10 1)\<lparr>self_T := 1\<rparr>) (draw demo_world 0)))) [0, 10, 0]
       = 9007199254740991 / 9007199254740992
   \<and> real 10 * self_T ((demo 1 10 1)\<lparr>self_T := 1\<rparr>) / real (self_N ((demo 1 10 1)\<lparr>self_T := 1\<rparr>)) = 1
   \<and> fl64 (fl64 (10 * 1) / 10) = 1
   \<and> fl64 (10 * fl64 (1 / 10)) = 1"
proof -
  let ?S = "(demo 1 10 1)\<lparr>self_T := 1\<rparr>"
  have N: "0 < self_N ?S" by (simp add: demo_def)
  from fetch_minibatch_run [OF N, of "draw demo_world 0"]
  obtain t W where f: "fetch_minibatch ?S (draw demo_world 0) = Some (t, W)"
    and time: "\<forall>a<self_M ?S. \<forall>n\<le>self_N ?S.
          el t [a, n, 0] = running_sum (\<lambda>k. if k = 0 then 0 else fl64 (self_T ?S / real (self_N ?S))) n"
    by blast
  have dt: "fl64 (1 / 10) = 3602879701896397 / 36028797018963968"
    by (simp add: fl64_eval)
  have M: "0 < self_M ?S" "10 \<le> self_N ?S" and q: "self_T ?S / real (self_N ?S) = 1 / 10"
    by (simp_all add: demo_def)
  have "el t [0, 10, 0]
      = running_sum (\<lambda>k. if k = 0 then 0 else fl64 (self_T ?S / real (self_N ?S))) 10"
    using time M by blast
  also have "\<dots> = running_sum (\<lambda>k. if k = 0 then 0 else fl64 (1 / 10)) 10"
    by (simp only: q)
  also have "\<dots> = running_sum (\<lambda>k. if k = 0 then 0 else 3602879701896397 / 36028797018963968) 10"
    by (simp only: dt)
  also have "\<dots> = 9007199254740991 / 9007199254740992"
    by (simp add: running_sum_numeral fl64_eval)
  finally have 1: "el (fst (the (fetch_minibatch ?S (draw demo_world 0)))) [0, 10, 0]
       = 9007199254740991 / 9007199254740992"
    using f by simp
  have 2: "fl64 (fl64 (10 * 1) / 10) = 1"
    by (simp add: fl64_eval)
  have 3: "fl64 (10 * fl64 (1 / 10)) = 1"
    by (simp add: dt) (simp add: fl64_eval)
  have 4: "self_T ?S = 1" "self_N ?S = 10"
    by (simp_all add: demo_def)
  show ?thesis
    using f 1 2 3 4 by simp
qed

text \<open>
  Claim C4, amended.  For every step count \<open>N \<ge> 1\<close> (and every \<open>M\<close>, \<open>D\<close>, \<open>T\<close> and every
  array of normal draws) \<^verbatim>\<open>fetch_minibatch\<close> returns a time array of shape \<open>(M, N+1, 1)\<close>
  and a noise array of shape \<open>(M, N+1, D)\<close>, and entry 0 of both is zero on every
  trajectory.  On every trajectory the time entry at step \<open>n + 1\<close> is the binary64 sum of
  the entry at step \<open>n\<close> and the binary64 quotient \<^verbatim>\<open>T/N\<close>.  It equals \<open>n \<cdot> T / N\<close> at
  every step when each multiple \<open>k \<cdot> T / N\<close>, \<open>k = 0..N\<close>, is a binary64 number.
\<close>

theorem C4_path_simulator:
  assumes "0 < self_N self"
  shows "\<exists>t W. fetch_minibatch self nrm = Some (t, W)
     \<and> shape t = [self_M self, self_N self + 1, 1] \<and> wf t
     \<and> shape W = [self_M self, self_N self + 1, self_D self] \<and> wf W
     \<and> (\<forall>a<self_M self. el t [a, 0, 0] = 0 \<and> (\<forall>j<self_D self. el W [a, 0, j] = 0))
     \<and> (\<forall>a<self_M self. \<forall>n<self_N self.
           el t [a, Suc n, 0] = fl64 (el t [a, n, 0] + fl64 (self_T self / real (self_N self))))
     \<and> ((\<forall>k\<le>self_N self. fl64 (real k * self_T self / real (self_N self))
                              = real k * self_T self / real (self_N self))
        \<longrightarrow> (\<forall>a<self_M self. \<forall>n\<le>self_N self.
               el t [a, n, 0] = real n * self_T self / real (self_N self)))"
proof -
  let ?f = "\<lambda>k::nat. if k = 0 then 0 else fl64 (self_T self / real (self_N self))"
  from fetch_minibatch_run [OF assms, of nrm]
  obtain t W where f: "fetch_minibatch self nrm = Some (t, W)"
    and sh: "has_shape t [self_M self, Suc (self_N self), 1]"
      "has_shape W [self_M self, Suc (self_N self), self_D self]"
    and time: "\<forall>a<self_M self. \<forall>n\<le>self_N self. el t [a, n, 0] = running_sum ?f n"
    and zero: "\<forall>a<self_M self. \<forall>j<self_D self. el W [a, 0, j] = 0"
    by blast
  have t0: "\<forall>a<self_M self. el t [a, 0, 0] = 0"
    using time by simp
  have step: "\<forall>a<self_M self. \<forall>n<self_N self.
           el t [a, Suc n, 0] = fl64 (el t [a, n, 0] + fl64 (self_T self / real (self_N self)))"
  proof (intro allI impI)
    fix a n assume a: "a < self_M self" and n: "n < self_N self"
    have "el t [a, Suc n, 0] = running_sum ?f (Suc n)" using time a n by simp
    moreover have "el t [a, n, 0] = running_sum ?f n" using time a n by simp
    ultimately show "el t [a, Suc n, 0] = fl64 (el t [a, n, 0] + fl64 (self_T self / real (self_N self)))"
      by simp
  qed
  have exact: "(\<forall>k\<le>self_N self. fl64 (real k * self_T self / real (self_N self))
                              = real k * self_T self / real (self_N self))
        \<longrightarrow> (\<forall>a<self_M self. \<forall>n\<le>self_N self.
               el t [a, n, 0] = real n * self_T self / real (self_N self))"
    using time running_sum_exact [OF _ assms] by simp
  show ?thesis
    using f sh zero t0 step exact by (simp add: has_shape_def)
qed

theorem C4_path_simulator_witness:
  "0 < self_N (demo 2 2 1)
   \<and> list_all (\<lambda>k. fl64 (real k * self_T (demo 2 2 1) / real (self_N (demo 2 2 1)))
                      = real k * self_T (demo 2 2 1) / real (self_N (demo 2 2 1)))
        [0..<Suc (self_N (demo 2 2 1))]
   \<and> (\<exists>t W. fetch_minibatch (demo 2 2 1) (draw demo_world 0) = Some (t, W)
     \<and> shape t = [self_M (demo 2 2 1), self_N (demo 2 2 1) + 1, 1] \<and> wf t
     \<and> shape W = [self_M (demo 2 2 1), self_N (demo 2 2 1) + 1, self_D (demo 2 2 1)] \<and> wf W
     \<and> (\<forall>a<self_M (demo 2 2 1). el t [a, 0, 0] = 0 \<and> (\<forall>j<self_D (demo 2 2 1). el W [a, 0, j] = 0))
     \<and> (\<forall>a<self_M (demo 2 2 1). \<forall>n<self_N (demo 2 2 1).
           el t [a, Suc n, 0]
             = fl64 (el t [a, n, 0] + fl64 (self_T (demo 2 2 1) / real (self_N (demo 2 2 1)))))
     \<and> (\<forall>a<self_M (demo 2 2 1). \<forall>n\<le>self_N (demo 2 2 1).
            el t [a, n, 0] = real n * self_T (demo 2 2 1) / real (self_N (demo 2 2 1))))"
proof -
  have n: "0 < self_N (demo 2 2 1)" by (simp add: demo_def)
  have "fl64 (real k) = real k" if "k \<le> 2" for k
  proof -
    have "k = 0 \<or> k = 1 \<or> k = 2" using that by auto
    then show ?thesis using fl64_0 fl64_1 fl64_2 by auto
  qed
  then have rep: "\<forall>k\<le>self_N (demo 2 2 1). fl64 (real k * self_T (demo 2 2 1) / real (self_N (demo 2 2 1)))
                              = real k * self_T (demo 2 2 1) / real (self_N (demo 2 2 1))"
    by (simp add: demo_def)
  have rep': "list_all (\<lambda>k. fl64 (real k * self_T (demo 2 2 1) / real (self_N (demo 2 2 1)))
                      = real k * self_T (demo 2 2 1) / real (self_N (demo 2 2 1)))
        [0..<Suc (self_N (demo 2 2 1))]"
    using rep by (simp add: list_all_iff del: upt_Suc)
  show ?thesis
    using n rep rep' C4_path_simulator [OF n, of "draw demo_world 0"] by blast
qed

section \<open>\<^verbatim>\<open>predict\<close>\<close>










section \<open>The zero problem\<close>









section \<open>\<^verbatim>\<open>train\<close>\<close>










end
